theory Spec2Isabelle
  imports Main
begin

section \<open>Data model of \<^verbatim>\<open>src/top.js\<close>\<close>

text \<open>
  A thrown JavaScript value is an \<open>Error\<close> carrying its \<open>message\<close>. An async method is a
  function from the client state to a settled promise and the state it leaves:
  \<open>Inl e\<close> is a rejection (a \<^verbatim>\<open>throw\<close>), \<open>Inr v\<close> a resolution with \<open>v\<close>.
\<close>

datatype error = Error (message: string)

text \<open>
  The strings \<^verbatim>\<open>"vote"\<close>, \<^verbatim>\<open>"already"\<close>, \<^verbatim>\<open>"wait"\<close> that the page function of
  \<^verbatim>\<open>_waitForVoteStatus\<close> returns, and the \<^verbatim>\<open>"timeout"\<close> the poller adds.
\<close>

datatype vote_status = StVote | StAlready | StWait | StTimeout

text \<open>
  One constructor for each \<^verbatim>\<open>this._log(...)\<close> call of the source, with the values the
  template string interpolates (\<open>shortT\<close>, an index, an error message).
\<close>

datatype log_msg =
    LogStartCycle nat
  | LogFatalCycle string
  | LogCycleComplete nat nat nat
  | LogWaiting int
  | LogProcessing nat nat
  | LogErrorProcessing nat string
  | LogErrorParallel nat string
  | LogStartingProcess string
  | LogValidating string
  | LogValidation string bool
  | LogValidationError string string
  | LogAttemptingVote string
  | LogVoted string
  | LogSkipped string
  | LogVoteFailed string string
  | LogConnecting string
  | LogUsingProxy string
  | LogAttemptConnect
  | LogConnected string
  | LogSettingUp string
  | LogNavigating string
  | LogClickingLogin string
  | LogWaitingNavigation string
  | LogWaitingAuthButton string
  | LogClickingAuthButton string
  | LogCheckingLogin string
  | LogAuthorized string
  | LogNavigatingVote string
  | LogCheckingStatus string
  | LogVoteStatus string vote_status
  | LogClickingVote string
  | LogVoteClicked string
  | LogAlreadyVoted string
  | LogNotAvailable string
  | LogErrorInVote string string
  | LogClosing string
  | LogClosed string
  | LogErrorClosing string string
  | LogPollAttempt nat
  | LogPollResult vote_status
  | LogPollError string
  | LogPollTimedOut nat

text \<open>
  The calls the client makes on its collaborators, in the order it makes them:
  \<open>Dispatch token proxy\<close> is an invocation of \<^verbatim>\<open>_handleSingle(token, proxy)\<close>,
  \<open>Fetch token\<close> the credential check, \<open>Connect p\<close> the call \<^verbatim>\<open>connect(opts)\<close> with
  \<^verbatim>\<open>opts.proxy = p\<close>, \<open>Click t\<close> a click on the button with text \<open>t\<close>, \<open>Close\<close> the
  call \<^verbatim>\<open>browser.close()\<close>.
\<close>

datatype call =
    Dispatch string "string option"
  | Fetch string
  | Connect "string option"
  | Click string
  | Close

text \<open>
  The options of the constructor. \<open>errorLog\<close> is \<open>None\<close> when the option is not a function;
  a handler sees the errors it was called with before (a closure may keep state) and the
  error at hand, and answers \<open>None\<close> when it returns, \<open>Some e\<close> when it throws \<open>e\<close>.
  \<^verbatim>\<open>fetchFn\<close> is part of the world, see \<open>script\<close> below.
\<close>

record config =
  tokenList :: "string list"
  botId :: string
  cooldown :: int
  runInParallel :: bool
  proxies :: "string list"
  verbose :: bool
  errorLog :: "(error list \<Rightarrow> error \<Rightarrow> error option) option"

text \<open>
  The mutable part of a client: \<^verbatim>\<open>this.stats\<close>, the lines written by \<^verbatim>\<open>console.log\<close>
  and \<^verbatim>\<open>console.error\<close>, the errors the handler was called with, and the calls made.
\<close>

record state =
  stats_total :: nat
  stats_success :: nat
  stats_failed :: nat
  stats_invalid :: nat
  out :: "log_msg list"
  err_out :: "error list"
  handled :: "error list"
  calls :: "call list"

text \<open>A button of the page: its \<^verbatim>\<open>textContent\<close> and its \<^verbatim>\<open>disabled\<close> flag.\<close>

type_synonym button = "string \<times> bool"

text \<open>
  One probe of the poller: what \<^verbatim>\<open>page.evaluate\<close> settles with (the page's
  \<^verbatim>\<open>document.body.innerText\<close>, or a rejection), and the milliseconds that pass from the
  loop test to the next one beyond the 2500 of \<^verbatim>\<open>delay(2500)\<close>: the time the evaluation
  takes and the lateness of the timer. Every probe settles.
\<close>

record probe =
  latency :: nat
  outcome :: "error + string"

datatype fetch_result = FetchResolves bool | FetchRejects error

text \<open>
  \<^verbatim>\<open>Promise.race([connect(opts), <30 s timer>])\<close>: the connection resolves first, or it
  rejects first, or the timer rejects first with \<^verbatim>\<open>Browser connection timeout\<close>.
\<close>

datatype connect_result = Connected | ConnectRejects error | ConnectTimesOut

text \<open>
  What the world answers to one worker: the settlement of every awaited call of
  \<^verbatim>\<open>_handleSingle\<close> and \<^verbatim>\<open>_voteForBot\<close>, in source order. \<open>None\<close> is a call that
  resolves, \<open>Some e\<close> one that rejects with \<open>e\<close>.
\<close>

record script =
  fetch_res :: fetch_result
  connect_res :: connect_result
  inject_res :: "error option"
  goto_home_res :: "error option"
  login_click_res :: "error + button list"
  nav_login_res :: "error option"
  viewport_res :: "error option"
  selector_res :: "error option"
  click_auth_res :: "error option"
  nav_auth_res :: "error option"
  login_text_res :: "error + string"
  goto_vote_res :: "error option"
  probes :: "nat \<Rightarrow> probe"
  vote_click_res :: "error + button list"
  close_res :: "error option"

section \<open>Logging and the error policy\<close>

text \<open>\<^verbatim>\<open>_log(msg) { if (this.verbose) console.log(...) }\<close>\<close>

definition log :: "config \<Rightarrow> log_msg \<Rightarrow> state \<Rightarrow> state" where
  "log cfg msg s = (if verbose cfg then s\<lparr>out := out s @ [msg]\<rparr> else s)"

text \<open>
  \<^verbatim>\<open>_handleError(err)\<close>: with a handler, call it, and rethrow what it throws after
  \<^verbatim>\<open>console.error\<close>; without one, throw \<open>err\<close>.
\<close>

definition handleError :: "config \<Rightarrow> error \<Rightarrow> state \<Rightarrow> (error + unit) \<times> state" where
  "handleError cfg err s =
     (case errorLog cfg of
        Some h \<Rightarrow>
          (case h (handled s) err of
             None \<Rightarrow> (Inr (), s\<lparr>handled := handled s @ [err]\<rparr>)
           | Some e \<Rightarrow> (Inl e, s\<lparr>handled := handled s @ [err], err_out := err_out s @ [e]\<rparr>))
      | None \<Rightarrow> (Inl err, s))"

text \<open>\<^verbatim>\<open>_resetStats()\<close>\<close>

definition resetStats :: "state \<Rightarrow> state" where
  "resetStats s = s\<lparr>stats_success := 0, stats_failed := 0, stats_invalid := 0\<rparr>"

section \<open>The poller \<^verbatim>\<open>_waitForVoteStatus\<close>\<close>

text \<open>\<^verbatim>\<open>String.prototype.includes\<close>: the pattern occurs as a contiguous substring.\<close>

fun starts_with :: "string \<Rightarrow> string \<Rightarrow> bool" where
  "starts_with cs [] = True"
| "starts_with [] (p # ps) = False"
| "starts_with (c # cs) (p # ps) = (c = p \<and> starts_with cs ps)"

fun js_includes :: "string \<Rightarrow> string \<Rightarrow> bool" where
  "js_includes [] pat = (pat = [])"
| "js_includes (c # cs) pat = (starts_with (c # cs) pat \<or> js_includes cs pat)"

text \<open>The function evaluated in the page (lines 297-302).\<close>

definition page_status :: "string \<Rightarrow> vote_status" where
  "page_status txt =
     (if js_includes txt ''You can vote now!'' then StVote
      else if js_includes txt ''You have already voted'' then StAlready
      else StWait)"

text \<open>
  The \<^verbatim>\<open>while (Date.now() - start < timeoutMs)\<close> loop. \<open>elapsed\<close> is \<^verbatim>\<open>Date.now() - start\<close>
  at the loop test and \<open>attempts\<close> the counter before its increment, which is also the
  index of the probe taken. A probe that rejects is caught and logged; both it and a
  \<^verbatim>\<open>"wait"\<close> fall through to \<^verbatim>\<open>await delay(2500)\<close>.
\<close>

function pollLoop ::
  "config \<Rightarrow> (nat \<Rightarrow> probe) \<Rightarrow> nat \<Rightarrow> nat \<Rightarrow> nat \<Rightarrow> state \<Rightarrow> (error + vote_status) \<times> state" where
  "pollLoop cfg ps timeoutMs elapsed attempts s =
     (if elapsed < timeoutMs then
        (case outcome (ps attempts) of
           Inr txt \<Rightarrow>
             (if page_status txt \<noteq> StWait
              then (Inr (page_status txt),
                    log cfg (LogPollResult (page_status txt))
                      (log cfg (LogPollAttempt (Suc attempts)) s))
              else pollLoop cfg ps timeoutMs (elapsed + latency (ps attempts) + 2500) (Suc attempts)
                     (log cfg (LogPollResult (page_status txt))
                        (log cfg (LogPollAttempt (Suc attempts)) s)))
         | Inl err \<Rightarrow>
             pollLoop cfg ps timeoutMs (elapsed + latency (ps attempts) + 2500) (Suc attempts)
               (log cfg (LogPollError (message err))
                  (log cfg (LogPollAttempt (Suc attempts)) s)))
      else (Inr StTimeout, log cfg (LogPollTimedOut attempts) s))"
  by pat_completeness auto
termination
  by (relation "measure (\<lambda>(cfg, ps, timeoutMs, elapsed, attempts, s). timeoutMs - elapsed)") auto

definition waitForVoteStatus ::
  "config \<Rightarrow> (nat \<Rightarrow> probe) \<Rightarrow> nat \<Rightarrow> state \<Rightarrow> (error + vote_status) \<times> state" where
  "waitForVoteStatus cfg ps timeoutMs s = pollLoop cfg ps timeoutMs 0 0 s"

text \<open>
  The value of \<^verbatim>\<open>Date.now() - start\<close> at the loop test before probe \<open>k\<close>, when the loop
  gets that far: every earlier probe took its latency and the 2500 ms delay.
\<close>

primrec probe_start :: "(nat \<Rightarrow> probe) \<Rightarrow> nat \<Rightarrow> nat" where
  "probe_start ps 0 = 0"
| "probe_start ps (Suc k) = probe_start ps k + latency (ps k) + 2500"

text \<open>A probe that does not end the loop: it rejects, or its page text has no marker.\<close>

definition still_waiting :: "probe \<Rightarrow> bool" where
  "still_waiting p = (case outcome p of Inl e \<Rightarrow> True | Inr txt \<Rightarrow> page_status txt = StWait)"

text \<open>
  The loop test before probe \<open>n + k\<close> of a loop that stands before probe \<open>n\<close> with \<open>e\<close>
  milliseconds elapsed.
\<close>

primrec elapsed_from :: "(nat \<Rightarrow> probe) \<Rightarrow> nat \<Rightarrow> nat \<Rightarrow> nat \<Rightarrow> nat" where
  "elapsed_from ps e n 0 = e"
| "elapsed_from ps e n (Suc k) = elapsed_from ps e n k + latency (ps (n + k)) + 2500"

section \<open>Sequencing of awaited calls\<close>

text \<open>
  \<open>bindE\<close> is \<^verbatim>\<open>const a = await m; f(a)\<close>: a rejection of \<open>m\<close> skips \<open>f\<close>.
  \<open>catchE\<close> is \<^verbatim>\<open>try { await m } catch (err) { f(err) }\<close>, and \<^verbatim>\<open>m.catch(f)\<close>.
  \<open>seqE\<close> is a run of statements, left at the first one that throws.
\<close>

definition bindE ::
  "(state \<Rightarrow> (error + 'a) \<times> state) \<Rightarrow> ('a \<Rightarrow> state \<Rightarrow> (error + 'b) \<times> state) \<Rightarrow>
   state \<Rightarrow> (error + 'b) \<times> state" where
  "bindE m f s = (case m s of (Inl e, s1) \<Rightarrow> (Inl e, s1) | (Inr a, s1) \<Rightarrow> f a s1)"

definition catchE ::
  "(state \<Rightarrow> (error + 'a) \<times> state) \<Rightarrow> (error \<Rightarrow> state \<Rightarrow> (error + 'a) \<times> state) \<Rightarrow>
   state \<Rightarrow> (error + 'a) \<times> state" where
  "catchE m f s = (case m s of (Inl e, s1) \<Rightarrow> f e s1 | (Inr a, s1) \<Rightarrow> (Inr a, s1))"

definition returnE :: "'a \<Rightarrow> state \<Rightarrow> (error + 'a) \<times> state" where
  "returnE a s = (Inr a, s)"

fun seqE :: "(state \<Rightarrow> (error + unit) \<times> state) list \<Rightarrow> state \<Rightarrow> (error + unit) \<times> state" where
  "seqE [] s = (Inr (), s)"
| "seqE (m # ms) s = (case m s of (Inl e, s1) \<Rightarrow> (Inl e, s1) | (Inr u, s1) \<Rightarrow> seqE ms s1)"

definition logE :: "config \<Rightarrow> log_msg \<Rightarrow> state \<Rightarrow> (error + unit) \<times> state" where
  "logE cfg msg s = (Inr (), log cfg msg s)"

text \<open>An awaited call of the browser backend whose value is not used.\<close>

definition await :: "error option \<Rightarrow> state \<Rightarrow> (error + unit) \<times> state" where
  "await r s = (case r of None \<Rightarrow> (Inr (), s) | Some e \<Rightarrow> (Inl e, s))"

definition record_call :: "call \<Rightarrow> state \<Rightarrow> state" where
  "record_call c s = s\<lparr>calls := calls s @ [c]\<rparr>"

text \<open>
  \<^verbatim>\<open>page.evaluate(() => { const b = [...buttons].find(P); if (b) b.click(); })\<close>:
  the evaluation rejects, or the first button that satisfies \<open>P\<close> is clicked, if there
  is one.
\<close>

definition evalClick ::
  "(button \<Rightarrow> bool) \<Rightarrow> error + button list \<Rightarrow> state \<Rightarrow> (error + unit) \<times> state" where
  "evalClick P r s =
     (case r of
        Inl e \<Rightarrow> (Inl e, s)
      | Inr bs \<Rightarrow> (case find P bs of
                    None \<Rightarrow> (Inr (), s)
                  | Some b \<Rightarrow> (Inr (), record_call (Click (fst b)) s)))"

definition is_login_button :: "button \<Rightarrow> bool" where
  "is_login_button b = js_includes (fst b) ''Login''"

definition is_vote_button :: "button \<Rightarrow> bool" where
  "is_vote_button b = (js_includes (fst b) ''Vote'' \<and> \<not> snd b)"

section \<open>The voting routine \<^verbatim>\<open>_voteForBot\<close>\<close>

text \<open>\<^verbatim>\<open>token.slice(0, 5) + "..."\<close>\<close>

definition shortT :: "string \<Rightarrow> string" where
  "shortT token = take 5 token @ ''...''"

text \<open>
  Lines 202-244, from the connection to the check of the login: the thrown
  \<^verbatim>\<open>Authorization failed\<close> error when the page text still includes \<^verbatim>\<open>Login\<close>.
\<close>

definition login :: "config \<Rightarrow> script \<Rightarrow> string \<Rightarrow> state \<Rightarrow> (error + unit) \<times> state" where
  "login cfg sc t =
     bindE (seqE
        [logE cfg (LogConnected t),
         logE cfg (LogSettingUp t), await (inject_res sc),
         logE cfg (LogNavigating t), await (goto_home_res sc),
         logE cfg (LogClickingLogin t), evalClick is_login_button (login_click_res sc),
         logE cfg (LogWaitingNavigation t), await (nav_login_res sc), await (viewport_res sc),
         logE cfg (LogWaitingAuthButton t), await (selector_res sc),
         logE cfg (LogClickingAuthButton t), await (click_auth_res sc), await (nav_auth_res sc),
         logE cfg (LogCheckingLogin t)])
       (\<lambda>u s. case login_text_res sc of
                 Inl e \<Rightarrow> (Inl e, s)
               | Inr body \<Rightarrow>
                   if js_includes body ''Login''
                   then (Inl (Error ''Authorization failed - Discord OAuth did not complete''), s)
                   else (Inr (), log cfg (LogAuthorized t) s))"

text \<open>
  Lines 246-271: the vote page, the poll with its budget of 60000 ms, and the three
  branches on its status.
\<close>

definition vote :: "config \<Rightarrow> script \<Rightarrow> string \<Rightarrow> state \<Rightarrow> (error + bool) \<times> state" where
  "vote cfg sc t =
     bindE (seqE [logE cfg (LogNavigatingVote t), await (goto_vote_res sc),
                  logE cfg (LogCheckingStatus t)])
       (\<lambda>u. bindE (waitForVoteStatus cfg (probes sc) 60000)
         (\<lambda>status. bindE (logE cfg (LogVoteStatus t status))
           (\<lambda>u. if status = StVote then
                   bindE (seqE [logE cfg (LogClickingVote t),
                                evalClick is_vote_button (vote_click_res sc),
                                logE cfg (LogVoteClicked t)])
                     (\<lambda>u. returnE True)
                 else if status = StAlready then
                   bindE (logE cfg (LogAlreadyVoted t)) (\<lambda>u. returnE False)
                 else
                   bindE (logE cfg (LogNotAvailable t)) (\<lambda>u. returnE False))))"

text \<open>
  The \<^verbatim>\<open>finally\<close> block once \<^verbatim>\<open>browser\<close> is set: \<^verbatim>\<open>browser.close()\<close> is awaited and
  what it throws is passed to \<^verbatim>\<open>_log\<close> and dropped.
\<close>

definition closeBrowser :: "config \<Rightarrow> script \<Rightarrow> string \<Rightarrow> state \<Rightarrow> state" where
  "closeBrowser cfg sc t s =
     (case close_res sc of
        None \<Rightarrow> log cfg (LogClosed t) (record_call Close (log cfg (LogClosing t) s))
      | Some ce \<Rightarrow>
          log cfg (LogErrorClosing t (message ce)) (record_call Close (log cfg (LogClosing t) s)))"

text \<open>\<^verbatim>\<open>if (proxy) opts.proxy = proxy\<close>: \<^verbatim>\<open>undefined\<close> and the empty string are falsy.\<close>

definition opts_proxy :: "string option \<Rightarrow> string option" where
  "opts_proxy proxy = (case proxy of None \<Rightarrow> None | Some p \<Rightarrow> if p = [] then None else Some p)"

text \<open>
  \<^verbatim>\<open>_voteForBot(token, proxy)\<close>. The connection is raced against 30 s; when it does not
  resolve, \<^verbatim>\<open>browser\<close> stays undefined and the \<^verbatim>\<open>finally\<close> block closes nothing. The
  \<^verbatim>\<open>catch\<close> block logs and rethrows.
\<close>

definition voteForBot ::
  "config \<Rightarrow> script \<Rightarrow> string \<Rightarrow> string option \<Rightarrow> state \<Rightarrow> (error + bool) \<times> state" where
  "voteForBot cfg sc token proxy s =
     (let t = shortT token;
          s1 = log cfg (LogConnecting t) s;
          s2 = (case opts_proxy proxy of None \<Rightarrow> s1 | Some p \<Rightarrow> log cfg (LogUsingProxy p) s1);
          s3 = record_call (Connect (opts_proxy proxy)) (log cfg LogAttemptConnect s2)
      in case connect_res sc of
           ConnectRejects e \<Rightarrow> (Inl e, log cfg (LogErrorInVote t (message e)) s3)
         | ConnectTimesOut \<Rightarrow>
             (Inl (Error ''Browser connection timeout''),
              log cfg (LogErrorInVote t ''Browser connection timeout'') s3)
         | Connected \<Rightarrow>
             (case bindE (login cfg sc t) (\<lambda>u. vote cfg sc t) s3 of
                (Inl e, s4) \<Rightarrow>
                  (Inl e, closeBrowser cfg sc t (log cfg (LogErrorInVote t (message e)) s4))
              | (Inr b, s4) \<Rightarrow> (Inr b, closeBrowser cfg sc t s4)))"

section \<open>The worker \<^verbatim>\<open>_handleSingle\<close>\<close>

text \<open>
  \<^verbatim>\<open>_handleSingle(token, proxy)\<close>. \<open>valid\<close> is \<^verbatim>\<open>res.ok\<close>, and false when the check
  rejects. A counter is raised before the error of the account goes to \<open>handleError\<close>
  (lines 152-154 and 170-172).
\<close>

definition handleSingle ::
  "config \<Rightarrow> script \<Rightarrow> string \<Rightarrow> string option \<Rightarrow> state \<Rightarrow> (error + unit) \<times> state" where
  "handleSingle cfg sc token proxy s =
     (let t = shortT token;
          s1 = record_call (Fetch token)
                 (log cfg (LogValidating t)
                    (log cfg (LogStartingProcess t) (record_call (Dispatch token proxy) s)));
          valid = (case fetch_res sc of FetchResolves ok \<Rightarrow> ok | FetchRejects e \<Rightarrow> False);
          s2 = (case fetch_res sc of
                  FetchResolves ok \<Rightarrow> log cfg (LogValidation t ok) s1
                | FetchRejects e \<Rightarrow> log cfg (LogValidationError t (message e)) s1)
      in if \<not> valid then
           handleError cfg (Error (''Invalid token '' @ t)) (s2\<lparr>stats_invalid := stats_invalid s2 + 1\<rparr>)
         else
           (case voteForBot cfg sc token proxy (log cfg (LogAttemptingVote t) s2) of
              (Inr result, s3) \<Rightarrow>
                if result
                then (Inr (), log cfg (LogVoted t) (s3\<lparr>stats_success := stats_success s3 + 1\<rparr>))
                else (Inr (), log cfg (LogSkipped t) (s3\<lparr>stats_failed := stats_failed s3 + 1\<rparr>))
            | (Inl err, s3) \<Rightarrow>
                handleError cfg (Error (''Token '' @ t @ '' error: '' @ message err))
                  (log cfg (LogVoteFailed t (message err))
                     (s3\<lparr>stats_failed := stats_failed s3 + 1\<rparr>))))"

section \<open>The cycles and the loop \<^verbatim>\<open>autovoteBot\<close>\<close>

text \<open>
  \<^verbatim>\<open>i % n\<close> is \<^verbatim>\<open>NaN\<close> for \<^verbatim>\<open>n = 0\<close>, and \<^verbatim>\<open>xs[k]\<close> is \<^verbatim>\<open>undefined\<close> for \<^verbatim>\<open>NaN\<close> and
  for an index out of range; both are \<open>None\<close> here.
\<close>

definition js_rem :: "nat \<Rightarrow> nat \<Rightarrow> nat option" where
  "js_rem i n = (if n = 0 then None else Some (i mod n))"

definition js_index :: "'a list \<Rightarrow> nat option \<Rightarrow> 'a option" where
  "js_index xs k = (case k of None \<Rightarrow> None | Some j \<Rightarrow> if j < length xs then Some (xs ! j) else None)"

text \<open>\<^verbatim>\<open>this.proxies[i % this.proxies.length]\<close>\<close>

definition proxy_at :: "config \<Rightarrow> nat \<Rightarrow> string option" where
  "proxy_at cfg i = js_index (proxies cfg) (js_rem i (length (proxies cfg)))"

text \<open>The body of the \<^verbatim>\<open>for\<close> loop of \<^verbatim>\<open>_sequentialCycle\<close>, lines 111-117.\<close>

definition sequentialStep :: "config \<Rightarrow> (nat \<Rightarrow> script) \<Rightarrow> nat \<Rightarrow> state \<Rightarrow> (error + unit) \<times> state" where
  "sequentialStep cfg env i s =
     catchE (handleSingle cfg (env i) (tokenList cfg ! i) (proxy_at cfg i))
       (\<lambda>err s1. handleError cfg err (log cfg (LogErrorProcessing (i + 1) (message err)) s1))
       (log cfg (LogProcessing (i + 1) (length (tokenList cfg))) s)"

text \<open>
  The \<^verbatim>\<open>for\<close> loop from index \<open>i\<close> up to \<open>n\<close>; what the catch block throws leaves the loop.
  \<open>env i\<close> is the script of the world for the account at index \<open>i\<close>.
\<close>

function sequentialLoop ::
  "config \<Rightarrow> (nat \<Rightarrow> script) \<Rightarrow> nat \<Rightarrow> nat \<Rightarrow> state \<Rightarrow> (error + unit) \<times> state" where
  "sequentialLoop cfg env i n s =
     (if i < n then
        (case sequentialStep cfg env i s of
           (Inl e, s1) \<Rightarrow> (Inl e, s1)
         | (Inr u, s1) \<Rightarrow> sequentialLoop cfg env (i + 1) n s1)
      else (Inr (), s))"
  by pat_completeness auto
termination
  by (relation "measure (\<lambda>(cfg, env, i, n, s). n - i)") auto

definition sequentialCycle :: "config \<Rightarrow> (nat \<Rightarrow> script) \<Rightarrow> state \<Rightarrow> (error + unit) \<times> state" where
  "sequentialCycle cfg env s = sequentialLoop cfg env 0 (length (tokenList cfg)) s"

text \<open>
  One element of \<^verbatim>\<open>promises\<close> in \<^verbatim>\<open>_parallelCycle\<close>, lines 123-127: the worker with its
  \<^verbatim>\<open>.catch\<close> handler.
\<close>

definition parallelWorker :: "config \<Rightarrow> (nat \<Rightarrow> script) \<Rightarrow> nat \<Rightarrow> state \<Rightarrow> (error + unit) \<times> state" where
  "parallelWorker cfg env i =
     catchE (handleSingle cfg (env i) (tokenList cfg ! i) (proxy_at cfg i))
       (\<lambda>err s1. handleError cfg err (log cfg (LogErrorParallel (i + 1) (message err)) s1))"

text \<open>
  The promises of the workers \<open>i\<close> up to \<open>n\<close>, settled. The workers run interleaved at
  their awaits. A worker touches the shared client only to raise one counter, to log
  and to call the handler, each in one synchronous step, and which counter it raises is
  decided by its own script. The model runs the workers one after the other in list
  order, which is one of the interleavings; the counters and the settlement of the
  cycle are the same in all of them.
\<close>

function parallelWorkers ::
  "config \<Rightarrow> (nat \<Rightarrow> script) \<Rightarrow> nat \<Rightarrow> nat \<Rightarrow> state \<Rightarrow> (error + unit) list \<times> state" where
  "parallelWorkers cfg env i n s =
     (if i < n then
        (case parallelWorker cfg env i s of
           (r, s1) \<Rightarrow> (case parallelWorkers cfg env (i + 1) n s1 of (rs, s2) \<Rightarrow> (r # rs, s2)))
      else ([], s))"
  by pat_completeness auto
termination
  by (relation "measure (\<lambda>(cfg, env, i, n, s). n - i)") auto


text \<open>
  \<^verbatim>\<open>await Promise.allSettled(promises)\<close> resolves with the list of settlements, whatever
  they are; \<^verbatim>\<open>_parallelCycle\<close> drops the list.
\<close>

definition allSettled :: "(error + 'a) list \<Rightarrow> error + (error + 'a) list" where
  "allSettled rs = Inr rs"

definition parallelCycle :: "config \<Rightarrow> (nat \<Rightarrow> script) \<Rightarrow> state \<Rightarrow> (error + unit) \<times> state" where
  "parallelCycle cfg env s =
     (case parallelWorkers cfg env 0 (length (tokenList cfg)) s of
        (rs, s1) \<Rightarrow> (case allSettled rs of Inl e \<Rightarrow> (Inl e, s1) | Inr settled \<Rightarrow> (Inr (), s1)))"

text \<open>
  \<^verbatim>\<open>autovoteBot()\<close>, the \<^verbatim>\<open>while (true)\<close> loop, run for at most \<open>fuel\<close> cycles. \<open>world c\<close> is
  what the world answers in cycle \<open>c\<close>. The result is \<open>Some e\<close> when the loop is left by
  throwing \<open>e\<close>, and \<open>None\<close> when it is still running after \<open>fuel\<close> cycles.
\<close>

fun autovoteBot ::
  "nat \<Rightarrow> config \<Rightarrow> (nat \<Rightarrow> nat \<Rightarrow> script) \<Rightarrow> nat \<Rightarrow> state \<Rightarrow> error option \<times> state" where
  "autovoteBot 0 cfg world c s = (None, s)"
| "autovoteBot (Suc fuel) cfg world c s =
     (case catchE (if runInParallel cfg then parallelCycle cfg (world c)
                   else sequentialCycle cfg (world c))
             (\<lambda>err s1. handleError cfg err (log cfg (LogFatalCycle (message err)) s1))
             (log cfg (LogStartCycle (stats_total s)) s) of
        (Inl e, s1) \<Rightarrow> (Some e, s1)
      | (Inr u, s1) \<Rightarrow>
          autovoteBot fuel cfg world (c + 1)
            (log cfg (LogWaiting (cooldown cfg))
               (resetStats
                  (log cfg (LogCycleComplete (stats_success s1) (stats_failed s1) (stats_invalid s1))
                     s1))))"

section \<open>The constructor\<close>



section \<open>Vocabulary of the statements\<close>


text \<open>Exactly one of the three counters is one higher in \<open>s'\<close> than in \<open>s\<close>; the rest is equal.\<close>

definition one_outcome :: "state \<Rightarrow> state \<Rightarrow> bool" where
  "one_outcome s s' =
     (stats_total s' = stats_total s \<and>
      ((stats_success s' = stats_success s + 1 \<and> stats_failed s' = stats_failed s \<and>
          stats_invalid s' = stats_invalid s) \<or>
       (stats_success s' = stats_success s \<and> stats_failed s' = stats_failed s + 1 \<and>
          stats_invalid s' = stats_invalid s) \<or>
       (stats_success s' = stats_success s \<and> stats_failed s' = stats_failed s \<and>
          stats_invalid s' = stats_invalid s + 1)))"

text \<open>The dispatches among the calls: token and proxy of each worker invocation, in order.\<close>

fun dispatch_of :: "call \<Rightarrow> (string \<times> string option) list" where
  "dispatch_of (Dispatch token proxy) = [(token, proxy)]"
| "dispatch_of c = []"

definition dispatched :: "state \<Rightarrow> (string \<times> string option) list" where
  "dispatched s = concat (map dispatch_of (calls s))"

fun is_click :: "call \<Rightarrow> bool" where
  "is_click (Click t) = True"
| "is_click c = False"

text \<open>
  The proxy of account \<open>i\<close> in the words of the specification: \<open>i mod M\<close> into a list of
  \<open>M > 0\<close> proxies, none for an empty list.
\<close>

definition spec_proxy :: "string list \<Rightarrow> nat \<Rightarrow> string option" where
  "spec_proxy ps i = (if 0 < length ps then Some (ps ! (i mod length ps)) else None)"

text \<open>
  The world lets the session get as far as the poll: the connection resolves, every
  call up to the navigation to the vote page resolves, and the page text after the
  login no longer includes \<^verbatim>\<open>Login\<close>.
\<close>

definition reaches_poll :: "script \<Rightarrow> bool" where
  "reaches_poll sc =
     (connect_res sc = Connected \<and> inject_res sc = None \<and> goto_home_res sc = None \<and>
      (case login_click_res sc of Inl e \<Rightarrow> False | Inr bs \<Rightarrow> True) \<and>
      nav_login_res sc = None \<and> viewport_res sc = None \<and> selector_res sc = None \<and>
      click_auth_res sc = None \<and> nav_auth_res sc = None \<and>
      (case login_text_res sc of Inl e \<Rightarrow> False | Inr body \<Rightarrow> \<not> js_includes body ''Login'') \<and>
      goto_vote_res sc = None)"

text \<open>
  An action of the session changes nothing of the client but its log and its calls:
  the log grows, and not at all when \<open>verbose\<close> is off; the calls it adds are clicks.
\<close>

definition session_action :: "config \<Rightarrow> (state \<Rightarrow> (error + 'a) \<times> state) \<Rightarrow> bool" where
  "session_action cfg m =
     (\<forall>s. \<exists>lg cs. snd (m s) = s\<lparr>out := out s @ lg, calls := calls s @ cs\<rparr> \<and>
        list_all is_click cs \<and> (\<not> verbose cfg \<longrightarrow> lg = []))"

text \<open>The click that \<open>evalClick P r\<close> makes, if any.\<close>

definition clicked :: "(button \<Rightarrow> bool) \<Rightarrow> error + button list \<Rightarrow> call list" where
  "clicked P r =
     (case r of
        Inl e \<Rightarrow> []
      | Inr bs \<Rightarrow> (case find P bs of None \<Rightarrow> [] | Some b \<Rightarrow> [Click (fst b)]))"

text \<open>
  The state in which \<^verbatim>\<open>_handleSingle\<close> calls \<^verbatim>\<open>_voteForBot\<close>, for a token whose check
  resolved with \<^verbatim>\<open>ok\<close>.
\<close>

definition vote_entry :: "config \<Rightarrow> string \<Rightarrow> string option \<Rightarrow> state \<Rightarrow> state" where
  "vote_entry cfg token proxy s =
     log cfg (LogAttemptingVote (shortT token))
       (log cfg (LogValidation (shortT token) True)
          (record_call (Fetch token)
             (log cfg (LogValidating (shortT token))
                (log cfg (LogStartingProcess (shortT token))
                   (record_call (Dispatch token proxy) s)))))"

text \<open>The dispatch of the account at index \<open>j\<close>, with the proxy the specification gives it.\<close>

definition spec_dispatch :: "config \<Rightarrow> nat \<Rightarrow> string \<times> string option" where
  "spec_dispatch cfg j = (tokenList cfg ! j, spec_proxy (proxies cfg) j)"

section \<open>Inputs for the examples\<close>

definition cfg_quiet :: config where
  "cfg_quiet = \<lparr>tokenList = [''TOKEN1'', ''TOKEN2''], botId = ''123456789012345678'',
     cooldown = 43200000, runInParallel = False, proxies = [], verbose = False,
     errorLog = None\<rparr>"

definition s_fresh :: state where
  "s_fresh = \<lparr>stats_total = 2, stats_success = 0, stats_failed = 0, stats_invalid = 0,
     out = [], err_out = [], handled = [], calls = []\<rparr>"

text \<open>A handler that returns for every error, and one that throws whatever it is given.\<close>

definition absorb :: "error list \<Rightarrow> error \<Rightarrow> error option" where
  "absorb hist e = None"

definition rethrow :: "error list \<Rightarrow> error \<Rightarrow> error option" where
  "rethrow hist e = Some (Error (''handler: '' @ message e))"

text \<open>
  Five probes that do not end the loop (the third rejects), then the page that shows
  the vote marker.
\<close>

definition ps_five_waits :: "nat \<Rightarrow> probe" where
  "ps_five_waits k =
     (if k = 2 then \<lparr>latency = 10, outcome = Inl (Error ''detached'')\<rparr>
      else if k < 5 then \<lparr>latency = 10, outcome = Inr ''Loading''\<rparr>
      else \<lparr>latency = 10, outcome = Inr ''You can vote now!''\<rparr>)"

text \<open>
  A world in which the token is valid, the login goes through, the sixth probe shows
  the vote marker, and the page has an enabled button \<^verbatim>\<open>Vote\<close>; and variations of it.
\<close>

definition sc_vote :: script where
  "sc_vote = \<lparr>fetch_res = FetchResolves True, connect_res = Connected, inject_res = None,
     goto_home_res = None, login_click_res = Inr [(''Login'', False)], nav_login_res = None,
     viewport_res = None, selector_res = None, click_auth_res = None, nav_auth_res = None,
     login_text_res = Inr ''Welcome back'', goto_vote_res = None, probes = ps_five_waits,
     vote_click_res = Inr [(''Share'', False), (''Vote'', False)], close_res = None\<rparr>"

definition sc_invalid :: script where
  "sc_invalid = sc_vote\<lparr>fetch_res := FetchResolves False\<rparr>"

definition sc_no_connection :: script where
  "sc_no_connection = sc_vote\<lparr>connect_res := ConnectTimesOut\<rparr>"

definition sc_click_fails :: script where
  "sc_click_fails = sc_vote\<lparr>vote_click_res := Inl (Error ''Execution context was destroyed'')\<rparr>"

definition sc_button_disabled :: script where
  "sc_button_disabled = sc_vote\<lparr>vote_click_res := Inr [(''Share'', False), (''Vote'', True)]\<rparr>"

definition sc_close_fails :: script where
  "sc_close_fails = sc_vote\<lparr>close_res := Some (Error ''Target closed'')\<rparr>"

definition sc_already :: script where
  "sc_already = sc_vote\<lparr>probes := (\<lambda>k. \<lparr>latency = 0, outcome = Inr ''You have already voted''\<rparr>)\<rparr>"

definition sc_never :: script where
  "sc_never = sc_vote\<lparr>probes := (\<lambda>k. \<lparr>latency = 0, outcome = Inr ''Loading''\<rparr>)\<rparr>"

definition cfg_parallel :: config where
  "cfg_parallel = cfg_quiet\<lparr>runInParallel := True\<rparr>"

definition cfg_verbose :: config where
  "cfg_verbose = cfg_quiet\<lparr>verbose := True\<rparr>"

definition cfg_proxies :: config where
  "cfg_proxies = cfg_quiet\<lparr>tokenList := [''TOKEN1'', ''TOKEN2'', ''TOKEN3''],
     proxies := [''http://p0:8080'', ''http://p1:8080'']\<rparr>"

definition sc_login_fails :: script where
  "sc_login_fails = sc_vote\<lparr>login_text_res := Inr ''Login with Discord''\<rparr>"

definition cfg_absorb :: config where
  "cfg_absorb = cfg_quiet\<lparr>errorLog := Some absorb\<rparr>"


section \<open>The error policy\<close>

lemma log_frame [simp]:
  "stats_total (log cfg m s) = stats_total s"
  "stats_success (log cfg m s) = stats_success s"
  "stats_failed (log cfg m s) = stats_failed s"
  "stats_invalid (log cfg m s) = stats_invalid s"
  "err_out (log cfg m s) = err_out s"
  "handled (log cfg m s) = handled s"
  "calls (log cfg m s) = calls s"
  by (simp_all add: log_def)

lemma log_out: "out (log cfg m s) = (if verbose cfg then out s @ [m] else out s)"
  by (simp add: log_def)

text \<open>
  C4. With a handler configured, \<open>handleError\<close> calls it with the error (the error is
  appended to the handler's call history); when the handler throws \<open>e'\<close> the call rejects
  with \<open>e'\<close>, when it returns the call resolves; with no handler the call rejects with the
  original error, and the state is untouched.
\<close>

theorem handleError_contract:
  "(errorLog cfg = Some h \<longrightarrow>
      handled (snd (handleError cfg e s)) = handled s @ [e] \<and>
      (h (handled s) e = Some e' \<longrightarrow> fst (handleError cfg e s) = Inl e') \<and>
      (h (handled s) e = None \<longrightarrow> fst (handleError cfg e s) = Inr ())) \<and>
   (errorLog cfg = None \<longrightarrow> handleError cfg e s = (Inl e, s))"
  by (simp add: handleError_def split: option.splits)

theorem handleError_contract_witness:
  "fst (handleError (cfg_quiet\<lparr>errorLog := Some rethrow\<rparr>) (Error ''boom'') s_fresh)
     = Inl (Error ''handler: boom'') \<and>
   handled (snd (handleError (cfg_quiet\<lparr>errorLog := Some rethrow\<rparr>) (Error ''boom'') s_fresh))
     = [Error ''boom''] \<and>
   fst (handleError (cfg_quiet\<lparr>errorLog := Some absorb\<rparr>) (Error ''boom'') s_fresh) = Inr () \<and>
   handleError cfg_quiet (Error ''boom'') s_fresh = (Inl (Error ''boom''), s_fresh)"
  using handleError_contract [of "cfg_quiet\<lparr>errorLog := Some rethrow\<rparr>" rethrow
      "Error ''boom''" s_fresh "Error ''handler: boom''"]
    handleError_contract [of "cfg_quiet\<lparr>errorLog := Some absorb\<rparr>" absorb
      "Error ''boom''" s_fresh "Error ''x''"]
    handleError_contract [of cfg_quiet h "Error ''boom''" s_fresh e']
  by (simp add: cfg_quiet_def s_fresh_def rethrow_def absorb_def)

section \<open>The poller\<close>

declare pollLoop.simps [simp del]

lemma pollLoop_timeout:
  "\<not> e < T \<Longrightarrow> pollLoop cfg ps T e n s = (Inr StTimeout, log cfg (LogPollTimedOut n) s)"
  by (subst pollLoop.simps) simp

lemma pollLoop_terminal:
  "e < T \<Longrightarrow> outcome (ps n) = Inr txt \<Longrightarrow> page_status txt \<noteq> StWait \<Longrightarrow>
   fst (pollLoop cfg ps T e n s) = Inr (page_status txt)"
  by (subst pollLoop.simps) simp

lemma pollLoop_continue:
  "e < T \<Longrightarrow> still_waiting (ps n) \<Longrightarrow>
   \<exists>s'. pollLoop cfg ps T e n s = pollLoop cfg ps T (e + latency (ps n) + 2500) (Suc n) s'"
  by (subst pollLoop.simps) (auto simp: still_waiting_def split: sum.splits)

lemma elapsed_from_shift:
  "elapsed_from ps (e + latency (ps n) + 2500) (Suc n) k = elapsed_from ps e n (Suc k)"
  by (induction k) simp_all

lemma elapsed_from_ge: "e \<le> elapsed_from ps e n k"
  by (induction k) simp_all

lemma probe_start_elapsed: "probe_start ps k = elapsed_from ps 0 0 k"
  by (induction k) simp_all

lemma pollLoop_first_terminal:
  "(\<forall>j<k. still_waiting (ps (n + j))) \<Longrightarrow> elapsed_from ps e n k < T \<Longrightarrow>
   outcome (ps (n + k)) = Inr txt \<Longrightarrow> page_status txt \<noteq> StWait \<Longrightarrow>
   fst (pollLoop cfg ps T e n s) = Inr (page_status txt)"
proof (induction k arbitrary: e n s)
  case 0
  then show ?case by (simp add: pollLoop_terminal)
next
  case (Suc k)
  have lt: "e < T"
    using elapsed_from_ge [of e ps n "Suc k"] Suc.prems(2) by linarith
  have w: "still_waiting (ps n)"
    using Suc.prems(1) by (metis add.right_neutral zero_less_Suc)
  obtain s' where step:
    "pollLoop cfg ps T e n s = pollLoop cfg ps T (e + latency (ps n) + 2500) (Suc n) s'"
    using pollLoop_continue [where ps = ps and n = n, OF lt w] by blast
  have "fst (pollLoop cfg ps T (e + latency (ps n) + 2500) (Suc n) s') = Inr (page_status txt)"
  proof (rule Suc.IH)
    show "\<forall>j<k. still_waiting (ps (Suc n + j))"
      using Suc.prems(1) by (metis Suc_less_eq add_Suc_shift)
    show "elapsed_from ps (e + latency (ps n) + 2500) (Suc n) k < T"
      using Suc.prems(2) by (simp only: elapsed_from_shift)
    show "outcome (ps (Suc n + k)) = Inr txt"
      using Suc.prems(3) by simp
    show "page_status txt \<noteq> StWait" by (rule Suc.prems(4))
  qed
  with step show ?case by simp
qed

lemma pollLoop_all_waiting:
  "(\<forall>k. elapsed_from ps e n k < T \<longrightarrow> still_waiting (ps (n + k))) \<Longrightarrow>
   fst (pollLoop cfg ps T e n s) = Inr StTimeout"
proof (induction "T - e" arbitrary: e n s rule: less_induct)
  case less
  show ?case
  proof (cases "e < T")
    case False
    then show ?thesis by (simp add: pollLoop_timeout)
  next
    case True
    have w: "still_waiting (ps n)"
      using less.prems [rule_format, of 0] True by simp
    obtain s' where step:
      "pollLoop cfg ps T e n s = pollLoop cfg ps T (e + latency (ps n) + 2500) (Suc n) s'"
      using pollLoop_continue [where ps = ps and n = n, OF True w] by blast
    have "fst (pollLoop cfg ps T (e + latency (ps n) + 2500) (Suc n) s') = Inr StTimeout"
    proof (rule less.hyps)
      show "T - (e + latency (ps n) + 2500) < T - e" using True by linarith
      show "\<forall>k. elapsed_from ps (e + latency (ps n) + 2500) (Suc n) k < T \<longrightarrow>
                still_waiting (ps (Suc n + k))"
        using less.prems [rule_format, of "Suc k" for k]
        by (simp only: elapsed_from_shift) simp
    qed
    with step show ?thesis by simp
  qed
qed

lemma pollLoop_never_raises:
  "\<exists>st. fst (pollLoop cfg ps T e n s) = Inr st \<and> st \<noteq> StWait"
proof (induction "T - e" arbitrary: e n s rule: less_induct)
  case less
  show ?case
  proof (cases "e < T")
    case False
    then show ?thesis by (simp add: pollLoop_timeout)
  next
    case True
    show ?thesis
    proof (cases "still_waiting (ps n)")
      case True
      obtain s' where step:
        "pollLoop cfg ps T e n s = pollLoop cfg ps T (e + latency (ps n) + 2500) (Suc n) s'"
        using pollLoop_continue [where ps = ps and n = n, OF \<open>e < T\<close> True] by blast
      have "T - (e + latency (ps n) + 2500) < T - e" using \<open>e < T\<close> by linarith
      from less.hyps [OF this] step show ?thesis by simp
    next
      case False
      then obtain body where "outcome (ps n) = Inr body" and "page_status body \<noteq> StWait"
        by (auto simp: still_waiting_def split: sum.splits)
      with \<open>e < T\<close> show ?thesis by (simp add: pollLoop_terminal)
    qed
  qed
qed

lemma page_status_markers:
  "(page_status txt = StVote \<longleftrightarrow> js_includes txt ''You can vote now!'') \<and>
   (page_status txt = StAlready \<longleftrightarrow>
      \<not> js_includes txt ''You can vote now!'' \<and> js_includes txt ''You have already voted'') \<and>
   page_status txt \<noteq> StTimeout"
  by (simp add: page_status_def)

text \<open>
  C5. When the probes before probe \<open>k\<close> all reject or show no marker, the loop test
  before probe \<open>k\<close> is inside the budget \<open>T\<close>, and the text of probe \<open>k\<close> has a marker, the
  poller resolves with the status of that text: \<open>StVote\<close> when it includes
  \<^verbatim>\<open>You can vote now!\<close>, \<open>StAlready\<close> when it includes \<^verbatim>\<open>You have already voted\<close> only.
  When every probe whose loop test is inside the budget rejects or shows no marker,
  the poller resolves with \<open>StTimeout\<close>. A probe that rejects counts as one that shows
  no marker. For every sequence of probes the poller resolves, and never with the
  internal \<open>StWait\<close>; it never rejects.
\<close>

theorem poller_result:
  "((\<forall>j<k. still_waiting (ps j)) \<and> probe_start ps k < T \<and> outcome (ps k) = Inr txt \<and>
      page_status txt \<noteq> StWait \<longrightarrow>
      fst (waitForVoteStatus cfg ps T s) = Inr (page_status txt)) \<and>
   ((\<forall>k. probe_start ps k < T \<longrightarrow> still_waiting (ps k)) \<longrightarrow>
      fst (waitForVoteStatus cfg ps T s) = Inr StTimeout) \<and>
   (\<exists>st. fst (waitForVoteStatus cfg ps T s) = Inr st \<and> st \<noteq> StWait) \<and>
   (page_status txt = StVote \<longleftrightarrow> js_includes txt ''You can vote now!'') \<and>
   (page_status txt = StAlready \<longleftrightarrow>
      \<not> js_includes txt ''You can vote now!'' \<and> js_includes txt ''You have already voted'') \<and>
   (still_waiting p \<longleftrightarrow> (case outcome p of Inl e \<Rightarrow> True | Inr t \<Rightarrow> page_status t = StWait))"
proof -
  have a: "(\<forall>j<k. still_waiting (ps j)) \<and> probe_start ps k < T \<and> outcome (ps k) = Inr txt \<and>
      page_status txt \<noteq> StWait \<longrightarrow> fst (waitForVoteStatus cfg ps T s) = Inr (page_status txt)"
    unfolding waitForVoteStatus_def probe_start_elapsed
    using pollLoop_first_terminal [of k ps 0 0 T "txt" cfg s] by simp
  have b: "(\<forall>k. probe_start ps k < T \<longrightarrow> still_waiting (ps k)) \<longrightarrow>
      fst (waitForVoteStatus cfg ps T s) = Inr StTimeout"
    unfolding waitForVoteStatus_def probe_start_elapsed
    using pollLoop_all_waiting [of ps 0 0 T cfg s] by simp
  have c: "\<exists>st. fst (waitForVoteStatus cfg ps T s) = Inr st \<and> st \<noteq> StWait"
    unfolding waitForVoteStatus_def by (rule pollLoop_never_raises)
  show ?thesis
    using a b c page_status_markers [of "txt"] by (simp add: still_waiting_def)
qed

lemma probe_start_mono: "probe_start ps k \<le> probe_start ps (k + m)"
  by (induction m) simp_all

lemma ps_five_waits_waiting: "j < 5 \<Longrightarrow> still_waiting (ps_five_waits j)"
  by (simp add: ps_five_waits_def still_waiting_def page_status_def)

lemma probe_start_five: "probe_start ps_five_waits 5 = 12550"
  by (simp add: eval_nat_numeral ps_five_waits_def)

theorem poller_result_witness:
  "fst (waitForVoteStatus cfg_quiet ps_five_waits 60000 s_fresh) = Inr StVote \<and>
   probe_start ps_five_waits 5 = 12550 \<and>
   fst (waitForVoteStatus cfg_quiet ps_five_waits 10000 s_fresh) = Inr StTimeout"
proof -
  have w: "\<forall>j<5. still_waiting (ps_five_waits j)"
    by (simp add: ps_five_waits_waiting)
  have t: "page_status ''You can vote now!'' = StVote"
    by (simp add: page_status_def)
  have o: "outcome (ps_five_waits 5) = Inr ''You can vote now!''"
    by (simp add: ps_five_waits_def)
  have late: "\<forall>k. probe_start ps_five_waits k < 10000 \<longrightarrow> still_waiting (ps_five_waits k)"
  proof (intro allI impI)
    fix k assume a: "probe_start ps_five_waits k < 10000"
    have "k < 5"
    proof (rule ccontr)
      assume "\<not> k < 5"
      then obtain m where "k = 5 + m" by (metis le_add_diff_inverse not_less)
      have "probe_start ps_five_waits 5 \<le> probe_start ps_five_waits (5 + m)"
        by (rule probe_start_mono)
      with a \<open>k = 5 + m\<close> show False by (simp add: probe_start_five)
    qed
    then show "still_waiting (ps_five_waits k)" by (rule ps_five_waits_waiting)
  qed
  show ?thesis
    using poller_result [of 5 ps_five_waits 60000 "''You can vote now!''" cfg_quiet s_fresh]
      poller_result [of 0 ps_five_waits 10000 "''x''" cfg_quiet s_fresh]
      w t o late probe_start_five
    by simp
qed

section \<open>Frame of the session\<close>

lemma session_actionI:
  "(\<And>s. \<exists>lg cs. snd (m s) = s\<lparr>out := out s @ lg, calls := calls s @ cs\<rparr> \<and>
       list_all is_click cs \<and> (\<not> verbose cfg \<longrightarrow> lg = [])) \<Longrightarrow>
   session_action cfg m"
  by (simp add: session_action_def)

lemma session_actionD:
  "session_action cfg m \<Longrightarrow>
   \<exists>lg cs. snd (m s) = s\<lparr>out := out s @ lg, calls := calls s @ cs\<rparr> \<and>
     list_all is_click cs \<and> (\<not> verbose cfg \<longrightarrow> lg = [])"
  by (simp add: session_action_def)

lemma session_action_witness:
  "snd (m s) = s\<lparr>out := out s @ lg, calls := calls s @ cs\<rparr> \<Longrightarrow> list_all is_click cs \<Longrightarrow>
   (\<not> verbose cfg \<longrightarrow> lg = []) \<Longrightarrow>
   \<exists>lg cs. snd (m s) = s\<lparr>out := out s @ lg, calls := calls s @ cs\<rparr> \<and>
     list_all is_click cs \<and> (\<not> verbose cfg \<longrightarrow> lg = [])"
  by blast

lemma logE_eq: "(\<lambda>s. (Inr (), log cfg m s)) = logE cfg m"
  by (rule ext) (simp add: logE_def)

lemma log_append: "log cfg m s = s\<lparr>out := out s @ (if verbose cfg then [m] else [])\<rparr>"
  by (simp add: log_def)

lemma session_action_logE: "session_action cfg (logE cfg m)"
proof (rule session_actionI)
  fix s
  have "snd (logE cfg m s) = s\<lparr>out := out s @ (if verbose cfg then [m] else []),
      calls := calls s @ []\<rparr>"
    by (simp add: logE_def log_def)
  then show "\<exists>lg cs. snd (logE cfg m s) = s\<lparr>out := out s @ lg, calls := calls s @ cs\<rparr> \<and>
      list_all is_click cs \<and> (\<not> verbose cfg \<longrightarrow> lg = [])"
    by (rule session_action_witness) simp_all
qed

lemma session_action_same:
  assumes "\<And>s. snd (m s) = s"
  shows "session_action cfg m"
proof (rule session_actionI)
  fix s
  have "snd (m s) = s\<lparr>out := out s @ [], calls := calls s @ []\<rparr>" by (simp add: assms)
  then show "\<exists>lg cs. snd (m s) = s\<lparr>out := out s @ lg, calls := calls s @ cs\<rparr> \<and>
      list_all is_click cs \<and> (\<not> verbose cfg \<longrightarrow> lg = [])"
    by (rule session_action_witness) simp_all
qed

lemma session_action_await: "session_action cfg (await r)"
  by (rule session_action_same) (simp add: await_def split: option.splits)

lemma session_action_returnE: "session_action cfg (returnE a)"
  by (rule session_action_same) (simp add: returnE_def)

lemma evalClick_state: "snd (evalClick P r s) = s\<lparr>calls := calls s @ clicked P r\<rparr>"
  by (simp add: evalClick_def clicked_def record_call_def split: sum.splits option.splits)

lemma clicked_clicks: "list_all is_click (clicked P r)"
  by (simp add: clicked_def split: sum.splits option.splits)

lemma session_action_evalClick: "session_action cfg (evalClick P r)"
proof (rule session_actionI)
  fix s
  have "snd (evalClick P r s) = s\<lparr>out := out s @ [], calls := calls s @ clicked P r\<rparr>"
    by (simp add: evalClick_state)
  then show "\<exists>lg cs. snd (evalClick P r s) = s\<lparr>out := out s @ lg, calls := calls s @ cs\<rparr> \<and>
      list_all is_click cs \<and> (\<not> verbose cfg \<longrightarrow> lg = [])"
    by (rule session_action_witness) (simp_all add: clicked_clicks)
qed

lemma session_action_bindE:
  assumes m: "session_action cfg m" and f: "\<And>a. session_action cfg (f a)"
  shows "session_action cfg (bindE m f)"
proof (rule session_actionI)
  fix s
  obtain lg cs where 1: "snd (m s) = s\<lparr>out := out s @ lg, calls := calls s @ cs\<rparr>"
      "list_all is_click cs" "\<not> verbose cfg \<longrightarrow> lg = []"
    using session_actionD [OF m, of s] by blast
  show "\<exists>lg cs. snd (bindE m f s) = s\<lparr>out := out s @ lg, calls := calls s @ cs\<rparr> \<and>
      list_all is_click cs \<and> (\<not> verbose cfg \<longrightarrow> lg = [])"
  proof (cases "fst (m s)")
    case (Inl e)
    then have "bindE m f s = (Inl e, snd (m s))"
      by (cases "m s") (simp add: bindE_def)
    with 1 show ?thesis by auto
  next
    case (Inr a)
    then have b: "bindE m f s = f a (snd (m s))"
      by (cases "m s") (simp add: bindE_def)
    obtain lg' cs' where 2:
      "snd (f a (snd (m s))) =
         (snd (m s))\<lparr>out := out (snd (m s)) @ lg', calls := calls (snd (m s)) @ cs'\<rparr>"
      "list_all is_click cs'" "\<not> verbose cfg \<longrightarrow> lg' = []"
      using session_actionD [OF f, of a "snd (m s)"] by blast
    have "snd (bindE m f s) = s\<lparr>out := out s @ (lg @ lg'), calls := calls s @ (cs @ cs')\<rparr>"
      using 1 2 b by simp
    then show ?thesis
      by (rule session_action_witness) (simp_all add: 1 2)
  qed
qed

lemma seqE_Cons_bindE: "seqE (m # ms) = bindE m (\<lambda>u. seqE ms)"
  by (rule ext) (simp add: bindE_def split: prod.splits sum.splits)

lemma session_action_seqE:
  "(\<And>m. m \<in> set ms \<Longrightarrow> session_action cfg m) \<Longrightarrow> session_action cfg (seqE ms)"
proof (induction ms)
  case Nil
  show ?case by (rule session_action_same) simp
next
  case (Cons m ms)
  show ?case
    unfolding seqE_Cons_bindE
    by (rule session_action_bindE) (simp_all add: Cons)
qed

lemma pollLoop_unfold:
  "pollLoop cfg ps T e n s =
     (if e < T then
        (case outcome (ps n) of
           Inr body \<Rightarrow>
             (if page_status body \<noteq> StWait
              then (Inr (page_status body),
                    log cfg (LogPollResult (page_status body)) (log cfg (LogPollAttempt (Suc n)) s))
              else pollLoop cfg ps T (e + latency (ps n) + 2500) (Suc n)
                     (log cfg (LogPollResult (page_status body))
                        (log cfg (LogPollAttempt (Suc n)) s)))
         | Inl err \<Rightarrow>
             pollLoop cfg ps T (e + latency (ps n) + 2500) (Suc n)
               (log cfg (LogPollError (message err)) (log cfg (LogPollAttempt (Suc n)) s)))
      else (Inr StTimeout, log cfg (LogPollTimedOut n) s))"
  by (rule pollLoop.simps)

lemma frame_witness:
  "x = s\<lparr>out := out s @ lg\<rparr> \<Longrightarrow> (\<not> v \<longrightarrow> lg = []) \<Longrightarrow>
   \<exists>lg. x = s\<lparr>out := out s @ lg\<rparr> \<and> (\<not> v \<longrightarrow> lg = [])"
  by blast

lemma pollLoop_frame:
  "\<exists>lg. snd (pollLoop cfg ps T e n s) = s\<lparr>out := out s @ lg\<rparr> \<and> (\<not> verbose cfg \<longrightarrow> lg = [])"
proof (induction "T - e" arbitrary: e n s rule: less_induct)
  case less
  show ?case
  proof (cases "e < T")
    case False
    then have "snd (pollLoop cfg ps T e n s)
        = s\<lparr>out := out s @ (if verbose cfg then [LogPollTimedOut n] else [])\<rparr>"
      by (simp add: pollLoop_timeout log_def)
    then show ?thesis by (rule frame_witness) simp
  next
    case True
    have d: "T - (e + latency (ps n) + 2500) < T - e" using True by linarith
    define m where "m = (case outcome (ps n) of Inl err \<Rightarrow> LogPollError (message err)
                          | Inr body \<Rightarrow> LogPollResult (page_status body))"
    define s1 where "s1 = log cfg m (log cfg (LogPollAttempt (Suc n)) s)"
    have s1: "s1 = s\<lparr>out := out s @ (if verbose cfg then [LogPollAttempt (Suc n), m] else [])\<rparr>"
      by (simp add: s1_def log_def)
    show ?thesis
    proof (cases "still_waiting (ps n)")
      case False
      then have "snd (pollLoop cfg ps T e n s) = s1"
        using True
        by (subst pollLoop_unfold) (simp add: still_waiting_def s1_def m_def split: sum.splits)
      with s1 have "snd (pollLoop cfg ps T e n s)
          = s\<lparr>out := out s @ (if verbose cfg then [LogPollAttempt (Suc n), m] else [])\<rparr>"
        by simp
      then show ?thesis by (rule frame_witness) simp
    next
      case w: True
      then have step: "pollLoop cfg ps T e n s = pollLoop cfg ps T (e + latency (ps n) + 2500) (Suc n) s1"
        using True
        by (subst pollLoop_unfold) (simp add: still_waiting_def s1_def m_def split: sum.splits)
      obtain lg where lg: "snd (pollLoop cfg ps T (e + latency (ps n) + 2500) (Suc n) s1)
          = s1\<lparr>out := out s1 @ lg\<rparr>" "\<not> verbose cfg \<longrightarrow> lg = []"
        using less.hyps [OF d] by blast
      have "snd (pollLoop cfg ps T e n s)
          = s\<lparr>out := out s @ ((if verbose cfg then [LogPollAttempt (Suc n), m] else []) @ lg)\<rparr>"
        using step lg(1) s1 by simp
      then show ?thesis by (rule frame_witness) (simp add: lg(2))
    qed
  qed
qed

lemma pollLoop_status_indep:
  "fst (pollLoop cfg ps T e n s) = fst (pollLoop cfg' ps T e n s')"
proof (induction "T - e" arbitrary: e n s s' rule: less_induct)
  case less
  show ?case
  proof (cases "e < T")
    case False
    then show ?thesis by (simp add: pollLoop_timeout)
  next
    case True
    have d: "T - (e + latency (ps n) + 2500) < T - e" using True by linarith
    show ?thesis
    proof (cases "still_waiting (ps n)")
      case False
      then obtain body where "outcome (ps n) = Inr body" and "page_status body \<noteq> StWait"
        by (auto simp: still_waiting_def split: sum.splits)
      with True show ?thesis by (simp add: pollLoop_terminal)
    next
      case w: True
      obtain s1 where 1:
        "pollLoop cfg ps T e n s = pollLoop cfg ps T (e + latency (ps n) + 2500) (Suc n) s1"
        using pollLoop_continue [where ps = ps and n = n, OF True w] by blast
      obtain s1' where 2:
        "pollLoop cfg' ps T e n s' = pollLoop cfg' ps T (e + latency (ps n) + 2500) (Suc n) s1'"
        using pollLoop_continue [where ps = ps and n = n, OF True w] by blast
      show ?thesis using less.hyps [OF d, of "Suc n" s1 s1'] 1 2 by simp
    qed
  qed
qed

lemma waitForVoteStatus_indep:
  "fst (waitForVoteStatus cfg ps T s) = fst (waitForVoteStatus cfg' ps T s')"
  unfolding waitForVoteStatus_def by (rule pollLoop_status_indep)

lemma session_action_waitForVoteStatus: "session_action cfg (waitForVoteStatus cfg ps T)"
proof (rule session_actionI)
  fix s
  obtain lg where "snd (pollLoop cfg ps T 0 0 s) = s\<lparr>out := out s @ lg\<rparr>" "\<not> verbose cfg \<longrightarrow> lg = []"
    using pollLoop_frame by blast
  then have p: "snd (waitForVoteStatus cfg ps T s) = s\<lparr>out := out s @ lg, calls := calls s @ []\<rparr>"
      and q: "\<not> verbose cfg \<longrightarrow> lg = []"
    by (simp_all add: waitForVoteStatus_def)
  from p show "\<exists>lg cs. snd (waitForVoteStatus cfg ps T s) = s\<lparr>out := out s @ lg, calls := calls s @ cs\<rparr> \<and>
      list_all is_click cs \<and> (\<not> verbose cfg \<longrightarrow> lg = [])"
    by (rule session_action_witness) (simp_all add: q)
qed

lemmas session_action_intros =
  session_action_logE session_action_await session_action_returnE session_action_evalClick
  session_action_waitForVoteStatus

lemma session_action_login: "session_action cfg (login cfg sc t)"
  unfolding login_def
proof (rule session_action_bindE)
  show "session_action cfg (seqE
        [logE cfg (LogConnected t),
         logE cfg (LogSettingUp t), await (inject_res sc),
         logE cfg (LogNavigating t), await (goto_home_res sc),
         logE cfg (LogClickingLogin t), evalClick is_login_button (login_click_res sc),
         logE cfg (LogWaitingNavigation t), await (nav_login_res sc), await (viewport_res sc),
         logE cfg (LogWaitingAuthButton t), await (selector_res sc),
         logE cfg (LogClickingAuthButton t), await (click_auth_res sc), await (nav_auth_res sc),
         logE cfg (LogCheckingLogin t)])"
    by (rule session_action_seqE) (auto intro: session_action_intros)
next
  fix u :: unit
  show "session_action cfg (\<lambda>s. case login_text_res sc of
                 Inl e \<Rightarrow> (Inl e, s)
               | Inr body \<Rightarrow>
                   if js_includes body ''Login''
                   then (Inl (Error ''Authorization failed - Discord OAuth did not complete''), s)
                   else (Inr (), log cfg (LogAuthorized t) s))"
  proof (cases "login_text_res sc")
    case (Inl e)
    then show ?thesis by (simp add: session_action_same)
  next
    case (Inr body)
    show ?thesis
    proof (cases "js_includes body ''Login''")
      case True
      with Inr show ?thesis by (simp add: session_action_same)
    next
      case False
      with Inr show ?thesis
        using session_action_logE [of cfg "LogAuthorized t"] by (simp add: logE_eq)
    qed
  qed
qed

lemma session_action_vote: "session_action cfg (vote cfg sc t)"
  unfolding vote_def
  by (intro session_action_bindE session_action_seqE session_action_intros)
     (auto intro!: session_action_bindE session_action_seqE session_action_intros)

lemma session_action_session: "session_action cfg (bindE (login cfg sc t) (\<lambda>u. vote cfg sc t))"
  by (intro session_action_bindE session_action_login session_action_vote)

section \<open>The voting routine\<close>

lemma closeBrowser_state:
  "closeBrowser cfg sc t s =
     s\<lparr>out := out s @ (if verbose cfg
                          then [LogClosing t,
                                case close_res sc of None \<Rightarrow> LogClosed t
                                | Some ce \<Rightarrow> LogErrorClosing t (message ce)]
                          else []),
       calls := calls s @ [Close]\<rparr>"
  by (simp add: closeBrowser_def log_def record_call_def split: option.splits)

text \<open>The state in which \<^verbatim>\<open>connect(opts)\<close> is awaited.\<close>

lemma connect_state:
  "record_call (Connect p) (log cfg LogAttemptConnect
     (case p of None \<Rightarrow> log cfg (LogConnecting t) s
      | Some x \<Rightarrow> log cfg (LogUsingProxy x) (log cfg (LogConnecting t) s)))
   = s\<lparr>out := out s @ (if verbose cfg
                        then LogConnecting t #
                             (case p of None \<Rightarrow> [] | Some x \<Rightarrow> [LogUsingProxy x]) @ [LogAttemptConnect]
                        else []),
       calls := calls s @ [Connect p]\<rparr>"
  by (simp add: log_def record_call_def split: option.splits)

lemma voteForBot_unconnected:
  assumes "connect_res sc \<noteq> Connected"
  shows "\<exists>lg. snd (voteForBot cfg sc token proxy s)
           = s\<lparr>out := out s @ lg, calls := calls s @ [Connect (opts_proxy proxy)]\<rparr> \<and>
         (\<not> verbose cfg \<longrightarrow> lg = [])"
proof -
  define e where "e = (case connect_res sc of ConnectRejects x \<Rightarrow> x
                       | _ \<Rightarrow> Error ''Browser connection timeout'')"
  have "snd (voteForBot cfg sc token proxy s)
      = s\<lparr>out := out s @ (if verbose cfg
                then (LogConnecting (shortT token) #
                     (case opts_proxy proxy of None \<Rightarrow> [] | Some x \<Rightarrow> [LogUsingProxy x]) @
                     [LogAttemptConnect]) @ [LogErrorInVote (shortT token) (message e)]
                else []),
          calls := calls s @ [Connect (opts_proxy proxy)]\<rparr>"
    using assms
    by (cases "connect_res sc")
       (simp_all add: voteForBot_def Let_def connect_state e_def, simp_all add: log_def)
  then show ?thesis
    by (intro exI [of _ "if verbose cfg
                then (LogConnecting (shortT token) #
                     (case opts_proxy proxy of None \<Rightarrow> [] | Some x \<Rightarrow> [LogUsingProxy x]) @
                     [LogAttemptConnect]) @ [LogErrorInVote (shortT token) (message e)]
                else []"]) simp
qed

lemma voteForBot_connected:
  assumes "connect_res sc = Connected"
  shows "\<exists>lg ks. snd (voteForBot cfg sc token proxy s)
           = s\<lparr>out := out s @ lg, calls := calls s @ Connect (opts_proxy proxy) # ks @ [Close]\<rparr> \<and>
         list_all is_click ks \<and> (\<not> verbose cfg \<longrightarrow> lg = []) \<and>
         (verbose cfg \<longrightarrow> lg \<noteq> [] \<and>
            last lg = (case close_res sc of None \<Rightarrow> LogClosed (shortT token)
                       | Some ce \<Rightarrow> LogErrorClosing (shortT token) (message ce)))"
proof -
  let ?t = "shortT token"
  define p where "p = opts_proxy proxy"
  define lg3 where "lg3 = (if verbose cfg
                        then LogConnecting ?t #
                             (case p of None \<Rightarrow> [] | Some x \<Rightarrow> [LogUsingProxy x]) @ [LogAttemptConnect]
                        else [])"
  define s3 where "s3 = s\<lparr>out := out s @ lg3, calls := calls s @ [Connect p]\<rparr>"
  define m where "m = bindE (login cfg sc ?t) (\<lambda>u. vote cfg sc ?t)"
  define fin where "fin = (case close_res sc of None \<Rightarrow> LogClosed ?t
                           | Some ce \<Rightarrow> LogErrorClosing ?t (message ce))"
  obtain lg4 ks where 4: "snd (m s3) = s3\<lparr>out := out s3 @ lg4, calls := calls s3 @ ks\<rparr>"
      "list_all is_click ks" "\<not> verbose cfg \<longrightarrow> lg4 = []"
    using session_actionD [OF session_action_session, of cfg sc ?t s3] unfolding m_def by blast
  define lgc where "lgc = (case fst (m s3) of Inl e \<Rightarrow> if verbose cfg then [LogErrorInVote ?t (message e)] else []
                           | Inr b \<Rightarrow> [])"
  define lg where "lg = lg3 @ lg4 @ lgc @ (if verbose cfg then [LogClosing ?t, fin] else [])"
  have v: "voteForBot cfg sc token proxy s =
      (case m s3 of
         (Inl e, s4) \<Rightarrow> (Inl e, closeBrowser cfg sc ?t (log cfg (LogErrorInVote ?t (message e)) s4))
       | (Inr b, s4) \<Rightarrow> (Inr b, closeBrowser cfg sc ?t s4))"
    using assms
    by (simp add: voteForBot_def Let_def connect_state p_def s3_def lg3_def m_def)
  have "snd (voteForBot cfg sc token proxy s)
      = s\<lparr>out := out s @ lg, calls := calls s @ Connect p # ks @ [Close]\<rparr>"
  proof (cases "m s3")
    case (Pair r s4)
    then have s4: "s4 = s3\<lparr>out := out s3 @ lg4, calls := calls s3 @ ks\<rparr>" using 4(1) by simp
    show ?thesis
    proof (cases r)
      case (Inl e)
      with Pair show ?thesis
        by (simp add: v closeBrowser_state log_def s4 s3_def lg_def lgc_def fin_def)
    next
      case (Inr b)
      with Pair show ?thesis
        by (simp add: v closeBrowser_state s4 s3_def lg_def lgc_def fin_def)
    qed
  qed
  moreover have "\<not> verbose cfg \<longrightarrow> lg = []"
    using 4(3) by (simp add: lg_def lg3_def lgc_def split: sum.splits)
  moreover have "verbose cfg \<longrightarrow> lg \<noteq> [] \<and> last lg = fin"
    by (simp add: lg_def)
  ultimately show ?thesis
    using 4(2) unfolding p_def fin_def by blast
qed

text \<open>The client outside its log and its calls is untouched by the routine.\<close>

lemma voteForBot_frame:
  "\<exists>lg cs. snd (voteForBot cfg sc token proxy s) = s\<lparr>out := out s @ lg, calls := calls s @ cs\<rparr> \<and>
     (\<not> verbose cfg \<longrightarrow> lg = []) \<and> dispatched (s\<lparr>calls := cs\<rparr>) = []"
proof (cases "connect_res sc = Connected")
  case True
  obtain lg ks where 1: "snd (voteForBot cfg sc token proxy s)
      = s\<lparr>out := out s @ lg, calls := calls s @ Connect (opts_proxy proxy) # ks @ [Close]\<rparr>"
      "list_all is_click ks" "\<not> verbose cfg \<longrightarrow> lg = []"
    using voteForBot_connected [OF True] by blast
  have "dispatch_of c = []" if "is_click c" for c
    using that by (cases c) simp_all
  with 1(2) have "concat (map dispatch_of ks) = []"
    by (induction ks) simp_all
  then have "dispatched (s\<lparr>calls := Connect (opts_proxy proxy) # ks @ [Close]\<rparr>) = []"
    by (simp add: dispatched_def)
  with 1 show ?thesis by blast
next
  case False
  obtain lg where 1: "snd (voteForBot cfg sc token proxy s)
      = s\<lparr>out := out s @ lg, calls := calls s @ [Connect (opts_proxy proxy)]\<rparr>"
      "\<not> verbose cfg \<longrightarrow> lg = []"
    using voteForBot_unconnected [OF False] by blast
  have "dispatched (s\<lparr>calls := [Connect (opts_proxy proxy)]\<rparr>) = []"
    by (simp add: dispatched_def)
  with 1 show ?thesis by blast
qed

lemma login_close_indep: "login cfg (sc\<lparr>close_res := c\<rparr>) t = login cfg sc t"
  by (simp add: login_def)

lemma vote_close_indep: "vote cfg (sc\<lparr>close_res := c\<rparr>) t = vote cfg sc t"
  by (simp add: vote_def cong: if_cong)

lemma voteForBot_close_indep:
  "fst (voteForBot cfg (sc\<lparr>close_res := c\<rparr>) token proxy s) = fst (voteForBot cfg sc token proxy s)"
  by (simp add: voteForBot_def Let_def login_close_indep vote_close_indep
      split: connect_result.splits prod.splits sum.splits)

section \<open>A session that reaches the poll\<close>

lemma login_ok:
  "reaches_poll sc \<Longrightarrow> fst (login cfg sc t s) = Inr ()"
  by (auto simp: reaches_poll_def login_def bindE_def logE_def await_def evalClick_def
      split: sum.splits option.splits)

lemma login_calls:
  "reaches_poll sc \<Longrightarrow>
   calls (snd (login cfg sc t s)) = calls s @ clicked is_login_button (login_click_res sc)"
  by (auto simp: reaches_poll_def login_def bindE_def logE_def await_def evalClick_def clicked_def
      record_call_def split: sum.splits option.splits)

lemma waitForVoteStatus_calls: "calls (snd (waitForVoteStatus cfg ps T s)) = calls s"
proof -
  obtain lg where "snd (pollLoop cfg ps T 0 0 s) = s\<lparr>out := out s @ lg\<rparr>"
    using pollLoop_frame by blast
  then show ?thesis by (simp add: waitForVoteStatus_def)
qed

lemma vote_result:
  assumes "goto_vote_res sc = None" and "fst (waitForVoteStatus cfg' (probes sc) 60000 s0) = Inr st"
  shows "fst (vote cfg sc t s) =
           (if st = StVote then (case vote_click_res sc of Inl e \<Rightarrow> Inl e | Inr bs \<Rightarrow> Inr True)
            else Inr False)"
    and "calls (snd (vote cfg sc t s)) =
           calls s @ (if st = StVote then clicked is_vote_button (vote_click_res sc) else [])"
proof -
  define s1 where "s1 = log cfg (LogCheckingStatus t) (log cfg (LogNavigatingVote t) s)"
  have st: "fst (waitForVoteStatus cfg (probes sc) 60000 s1) = Inr st"
    using assms(2) waitForVoteStatus_indep by metis
  obtain s2 where w: "waitForVoteStatus cfg (probes sc) 60000 s1 = (Inr st, s2)"
    using st by (cases "waitForVoteStatus cfg (probes sc) 60000 s1") simp
  have c2: "calls s2 = calls s"
    using waitForVoteStatus_calls [of cfg "probes sc" 60000 s1] w by (simp add: s1_def)
  have v: "vote cfg sc t s =
      (if st = StVote then
         bindE (seqE [logE cfg (LogClickingVote t), evalClick is_vote_button (vote_click_res sc),
                      logE cfg (LogVoteClicked t)]) (\<lambda>u. returnE True)
       else if st = StAlready then bindE (logE cfg (LogAlreadyVoted t)) (\<lambda>u. returnE False)
       else bindE (logE cfg (LogNotAvailable t)) (\<lambda>u. returnE False))
      (log cfg (LogVoteStatus t st) s2)"
    using assms(1) w
    by (simp add: vote_def bindE_def logE_def await_def s1_def)
  show "fst (vote cfg sc t s) =
           (if st = StVote then (case vote_click_res sc of Inl e \<Rightarrow> Inl e | Inr bs \<Rightarrow> Inr True)
            else Inr False)"
    unfolding v
    by (simp add: bindE_def logE_def returnE_def evalClick_def split: sum.splits option.splits)
  show "calls (snd (vote cfg sc t s)) =
           calls s @ (if st = StVote then clicked is_vote_button (vote_click_res sc) else [])"
    unfolding v
    by (simp add: bindE_def logE_def returnE_def evalClick_def clicked_def record_call_def c2
        split: sum.splits option.splits)
qed

lemma session_result:
  assumes "reaches_poll sc" and "fst (waitForVoteStatus cfg' (probes sc) 60000 s0) = Inr st"
  shows "fst (bindE (login cfg sc t) (\<lambda>u. vote cfg sc t) s) =
           (if st = StVote then (case vote_click_res sc of Inl e \<Rightarrow> Inl e | Inr bs \<Rightarrow> Inr True)
            else Inr False)"
    and "calls (snd (bindE (login cfg sc t) (\<lambda>u. vote cfg sc t) s)) =
           calls s @ clicked is_login_button (login_click_res sc) @
             (if st = StVote then clicked is_vote_button (vote_click_res sc) else [])"
proof -
  have g: "goto_vote_res sc = None" using assms(1) by (simp add: reaches_poll_def)
  obtain s1 where l: "login cfg sc t s = (Inr (), s1)"
    using login_ok [OF assms(1), of cfg t s] by (cases "login cfg sc t s") simp
  have c1: "calls s1 = calls s @ clicked is_login_button (login_click_res sc)"
    using login_calls [OF assms(1), of cfg t s] l by simp
  have b: "bindE (login cfg sc t) (\<lambda>u. vote cfg sc t) s = vote cfg sc t s1"
    by (simp add: bindE_def l)
  show "fst (bindE (login cfg sc t) (\<lambda>u. vote cfg sc t) s) =
           (if st = StVote then (case vote_click_res sc of Inl e \<Rightarrow> Inl e | Inr bs \<Rightarrow> Inr True)
            else Inr False)"
    unfolding b by (rule vote_result(1) [OF g assms(2)])
  show "calls (snd (bindE (login cfg sc t) (\<lambda>u. vote cfg sc t) s)) =
           calls s @ clicked is_login_button (login_click_res sc) @
             (if st = StVote then clicked is_vote_button (vote_click_res sc) else [])"
    unfolding b using vote_result(2) [OF g assms(2), of cfg t s1] c1 by simp
qed

lemma voteForBot_result:
  assumes "reaches_poll sc" and "fst (waitForVoteStatus cfg' (probes sc) 60000 s0) = Inr st"
  shows "fst (voteForBot cfg sc token proxy s) =
           (if st = StVote then (case vote_click_res sc of Inl e \<Rightarrow> Inl e | Inr bs \<Rightarrow> Inr True)
            else Inr False)"
    and "calls (snd (voteForBot cfg sc token proxy s)) =
           calls s @ Connect (opts_proxy proxy) # clicked is_login_button (login_click_res sc) @
             (if st = StVote then clicked is_vote_button (vote_click_res sc) else []) @ [Close]"
proof -
  define s3 where "s3 = record_call (Connect (opts_proxy proxy)) (log cfg LogAttemptConnect
     (case opts_proxy proxy of None \<Rightarrow> log cfg (LogConnecting (shortT token)) s
      | Some x \<Rightarrow> log cfg (LogUsingProxy x) (log cfg (LogConnecting (shortT token)) s)))"
  define m where "m = bindE (login cfg sc (shortT token)) (\<lambda>u. vote cfg sc (shortT token))"
  have c: "connect_res sc = Connected" using assms(1) by (simp add: reaches_poll_def)
  have c3: "calls s3 = calls s @ [Connect (opts_proxy proxy)]"
    by (simp add: s3_def connect_state)
  have v: "voteForBot cfg sc token proxy s =
      (case m s3 of
         (Inl e, s4) \<Rightarrow> (Inl e, closeBrowser cfg sc (shortT token)
                                     (log cfg (LogErrorInVote (shortT token) (message e)) s4))
       | (Inr b, s4) \<Rightarrow> (Inr b, closeBrowser cfg sc (shortT token) s4))"
    using c by (simp add: voteForBot_def Let_def s3_def m_def)
  have r: "fst (voteForBot cfg sc token proxy s) = fst (m s3)"
    unfolding v by (simp split: prod.splits sum.splits)
  have k: "calls (snd (voteForBot cfg sc token proxy s)) = calls (snd (m s3)) @ [Close]"
    unfolding v by (simp add: closeBrowser_state split: prod.splits sum.splits)
  show "fst (voteForBot cfg sc token proxy s) =
           (if st = StVote then (case vote_click_res sc of Inl e \<Rightarrow> Inl e | Inr bs \<Rightarrow> Inr True)
            else Inr False)"
    unfolding r m_def by (rule session_result(1) [OF assms])
  show "calls (snd (voteForBot cfg sc token proxy s)) =
           calls s @ Connect (opts_proxy proxy) # clicked is_login_button (login_click_res sc) @
             (if st = StVote then clicked is_vote_button (vote_click_res sc) else []) @ [Close]"
    unfolding k m_def using session_result(2) [OF assms, of cfg "shortT token" s3] c3 by simp
qed

section \<open>The worker\<close>

declare sequentialLoop.simps [simp del] parallelWorkers.simps [simp del]

lemma handleError_frame [simp]:
  "stats_total (snd (handleError cfg e s)) = stats_total s"
  "stats_success (snd (handleError cfg e s)) = stats_success s"
  "stats_failed (snd (handleError cfg e s)) = stats_failed s"
  "stats_invalid (snd (handleError cfg e s)) = stats_invalid s"
  "out (snd (handleError cfg e s)) = out s"
  "calls (snd (handleError cfg e s)) = calls s"
  by (simp_all add: handleError_def split: option.splits)

lemma handleError_absent: "errorLog cfg = None \<Longrightarrow> handleError cfg e s = (Inl e, s)"
  by (simp add: handleError_def)

lemma handleError_present:
  "errorLog cfg = Some h \<Longrightarrow>
   fst (handleError cfg e s) = (case h (handled s) e of None \<Rightarrow> Inr () | Some e' \<Rightarrow> Inl e') \<and>
   handled (snd (handleError cfg e s)) = handled s @ [e]"
  by (simp add: handleError_def split: option.splits)

lemma vote_entry_state:
  "vote_entry cfg token proxy s =
     s\<lparr>out := out s @ (if verbose cfg
                         then [LogStartingProcess (shortT token), LogValidating (shortT token),
                               LogValidation (shortT token) True, LogAttemptingVote (shortT token)]
                         else []),
       calls := calls s @ [Dispatch token proxy, Fetch token]\<rparr>"
  by (simp add: vote_entry_def log_def record_call_def)

lemma handleSingle_valid:
  "fetch_res sc = FetchResolves True \<Longrightarrow>
   handleSingle cfg sc token proxy s =
     (case voteForBot cfg sc token proxy (vote_entry cfg token proxy s) of
        (Inr result, s3) \<Rightarrow>
          if result
          then (Inr (), log cfg (LogVoted (shortT token)) (s3\<lparr>stats_success := stats_success s3 + 1\<rparr>))
          else (Inr (), log cfg (LogSkipped (shortT token)) (s3\<lparr>stats_failed := stats_failed s3 + 1\<rparr>))
      | (Inl err, s3) \<Rightarrow>
          handleError cfg (Error (''Token '' @ shortT token @ '' error: '' @ message err))
            (log cfg (LogVoteFailed (shortT token) (message err))
               (s3\<lparr>stats_failed := stats_failed s3 + 1\<rparr>)))"
  by (simp add: handleSingle_def Let_def vote_entry_def)

text \<open>What the worker does with a token that fails the check.\<close>

lemma handleSingle_invalid:
  assumes "fetch_res sc \<noteq> FetchResolves True"
  shows "\<exists>s2. handleSingle cfg sc token proxy s
             = handleError cfg (Error (''Invalid token '' @ shortT token)) s2 \<and>
           stats_total s2 = stats_total s \<and> stats_success s2 = stats_success s \<and>
           stats_failed s2 = stats_failed s \<and> stats_invalid s2 = stats_invalid s + 1 \<and>
           handled s2 = handled s \<and> err_out s2 = err_out s \<and>
           calls s2 = calls s @ [Dispatch token proxy, Fetch token] \<and>
           (\<not> verbose cfg \<longrightarrow> out s2 = out s)"
proof -
  define s1 where "s1 = record_call (Fetch token)
      (log cfg (LogValidating (shortT token))
         (log cfg (LogStartingProcess (shortT token)) (record_call (Dispatch token proxy) s)))"
  define s2 where "s2 = (case fetch_res sc of
      FetchResolves ok \<Rightarrow> log cfg (LogValidation (shortT token) ok) s1
    | FetchRejects e \<Rightarrow> log cfg (LogValidationError (shortT token) (message e)) s1)"
  have "handleSingle cfg sc token proxy s
      = handleError cfg (Error (''Invalid token '' @ shortT token))
          (s2\<lparr>stats_invalid := stats_invalid s2 + 1\<rparr>)"
    using assms
    by (cases "fetch_res sc") (simp_all add: handleSingle_def Let_def s2_def s1_def)
  moreover have "stats_total s2 = stats_total s" "stats_success s2 = stats_success s"
    "stats_failed s2 = stats_failed s" "stats_invalid s2 = stats_invalid s"
    "handled s2 = handled s" "err_out s2 = err_out s"
    "calls s2 = calls s @ [Dispatch token proxy, Fetch token]"
    "\<not> verbose cfg \<longrightarrow> out s2 = out s"
    by (simp_all add: s2_def s1_def record_call_def log_def split: fetch_result.splits)
  ultimately show ?thesis
    by (intro exI [of _ "s2\<lparr>stats_invalid := stats_invalid s2 + 1\<rparr>"]) simp
qed

text \<open>What the worker does with a valid token, by the result of the voting routine.\<close>

lemma handleSingle_voted:
  assumes "fetch_res sc = FetchResolves True"
    and "fst (voteForBot cfg sc token proxy (vote_entry cfg token proxy s)) = Inr b"
  shows "fst (handleSingle cfg sc token proxy s) = Inr ()"
    and "stats_total (snd (handleSingle cfg sc token proxy s)) = stats_total s"
    and "stats_success (snd (handleSingle cfg sc token proxy s)) = stats_success s + (if b then 1 else 0)"
    and "stats_failed (snd (handleSingle cfg sc token proxy s)) = stats_failed s + (if b then 0 else 1)"
    and "stats_invalid (snd (handleSingle cfg sc token proxy s)) = stats_invalid s"
    and "handled (snd (handleSingle cfg sc token proxy s)) = handled s"
    and "err_out (snd (handleSingle cfg sc token proxy s)) = err_out s"
    and "calls (snd (handleSingle cfg sc token proxy s))
           = calls (snd (voteForBot cfg sc token proxy (vote_entry cfg token proxy s)))"
proof -
  obtain s3 where v: "voteForBot cfg sc token proxy (vote_entry cfg token proxy s) = (Inr b, s3)"
    using assms(2) by (cases "voteForBot cfg sc token proxy (vote_entry cfg token proxy s)") simp
  obtain lg cs where f: "s3 = (vote_entry cfg token proxy s)\<lparr>out := out (vote_entry cfg token proxy s) @ lg,
      calls := calls (vote_entry cfg token proxy s) @ cs\<rparr>"
    using voteForBot_frame [of cfg sc token proxy "vote_entry cfg token proxy s"] v by auto
  have h: "handleSingle cfg sc token proxy s =
      (if b then (Inr (), log cfg (LogVoted (shortT token)) (s3\<lparr>stats_success := stats_success s3 + 1\<rparr>))
       else (Inr (), log cfg (LogSkipped (shortT token)) (s3\<lparr>stats_failed := stats_failed s3 + 1\<rparr>)))"
    by (simp add: handleSingle_valid [OF assms(1)] v)
  show "fst (handleSingle cfg sc token proxy s) = Inr ()" by (simp add: h)
  show "stats_total (snd (handleSingle cfg sc token proxy s)) = stats_total s"
    by (simp add: h f vote_entry_state)
  show "stats_success (snd (handleSingle cfg sc token proxy s)) = stats_success s + (if b then 1 else 0)"
    by (simp add: h f vote_entry_state)
  show "stats_failed (snd (handleSingle cfg sc token proxy s)) = stats_failed s + (if b then 0 else 1)"
    by (simp add: h f vote_entry_state)
  show "stats_invalid (snd (handleSingle cfg sc token proxy s)) = stats_invalid s"
    by (simp add: h f vote_entry_state)
  show "handled (snd (handleSingle cfg sc token proxy s)) = handled s"
    by (simp add: h f vote_entry_state)
  show "err_out (snd (handleSingle cfg sc token proxy s)) = err_out s"
    by (simp add: h f vote_entry_state)
  show "calls (snd (handleSingle cfg sc token proxy s))
           = calls (snd (voteForBot cfg sc token proxy (vote_entry cfg token proxy s)))"
    by (simp add: h v)
qed

lemma handleSingle_vote_raised:
  assumes "fetch_res sc = FetchResolves True"
    and "fst (voteForBot cfg sc token proxy (vote_entry cfg token proxy s)) = Inl err"
  shows "\<exists>s4. handleSingle cfg sc token proxy s
             = handleError cfg (Error (''Token '' @ shortT token @ '' error: '' @ message err)) s4 \<and>
           stats_total s4 = stats_total s \<and> stats_success s4 = stats_success s \<and>
           stats_failed s4 = stats_failed s + 1 \<and> stats_invalid s4 = stats_invalid s \<and>
           handled s4 = handled s \<and> err_out s4 = err_out s \<and>
           calls s4 = calls (snd (voteForBot cfg sc token proxy (vote_entry cfg token proxy s)))"
proof -
  obtain s3 where v: "voteForBot cfg sc token proxy (vote_entry cfg token proxy s) = (Inl err, s3)"
    using assms(2) by (cases "voteForBot cfg sc token proxy (vote_entry cfg token proxy s)") simp
  obtain lg cs where f: "s3 = (vote_entry cfg token proxy s)\<lparr>out := out (vote_entry cfg token proxy s) @ lg,
      calls := calls (vote_entry cfg token proxy s) @ cs\<rparr>"
    using voteForBot_frame [of cfg sc token proxy "vote_entry cfg token proxy s"] v by auto
  define s4 where "s4 = log cfg (LogVoteFailed (shortT token) (message err))
      (s3\<lparr>stats_failed := stats_failed s3 + 1\<rparr>)"
  have k: "snd (voteForBot cfg sc token proxy (vote_entry cfg token proxy s)) = s3"
    by (simp add: v)
  have "handleSingle cfg sc token proxy s =
      handleError cfg (Error (''Token '' @ shortT token @ '' error: '' @ message err)) s4"
    by (simp add: handleSingle_valid [OF assms(1)] v s4_def)
  moreover have "stats_total s4 = stats_total s" "stats_success s4 = stats_success s"
    "stats_failed s4 = stats_failed s + 1" "stats_invalid s4 = stats_invalid s"
    "handled s4 = handled s" "err_out s4 = err_out s"
    by (simp_all add: s4_def f vote_entry_state)
  moreover have "calls s4 = calls s3" by (simp add: s4_def)
  ultimately show ?thesis unfolding k by blast
qed

lemma handleSingle_one_outcome: "one_outcome s (snd (handleSingle cfg sc token proxy s))"
proof (cases "fetch_res sc = FetchResolves True")
  case False
  obtain s2 where "handleSingle cfg sc token proxy s
             = handleError cfg (Error (''Invalid token '' @ shortT token)) s2"
      "stats_total s2 = stats_total s" "stats_success s2 = stats_success s"
      "stats_failed s2 = stats_failed s" "stats_invalid s2 = stats_invalid s + 1"
    using handleSingle_invalid [OF False] by blast
  then show ?thesis by (simp add: one_outcome_def)
next
  case True
  show ?thesis
  proof (cases "fst (voteForBot cfg sc token proxy (vote_entry cfg token proxy s))")
    case (Inr b)
    show ?thesis
      using handleSingle_voted(2-5) [OF True Inr] by (simp add: one_outcome_def)
  next
    case (Inl err)
    obtain s4 where "handleSingle cfg sc token proxy s
             = handleError cfg (Error (''Token '' @ shortT token @ '' error: '' @ message err)) s4"
      "stats_total s4 = stats_total s" "stats_success s4 = stats_success s"
      "stats_failed s4 = stats_failed s + 1" "stats_invalid s4 = stats_invalid s"
      using handleSingle_vote_raised [OF True Inl] by blast
    then show ?thesis by (simp add: one_outcome_def)
  qed
qed

text \<open>A worker that rejects has counted its account as invalid or as failed.\<close>

lemma handleSingle_rejected:
  assumes "fst (handleSingle cfg sc token proxy s) = Inl e"
  shows "stats_success (snd (handleSingle cfg sc token proxy s)) = stats_success s \<and>
         stats_failed (snd (handleSingle cfg sc token proxy s)) +
           stats_invalid (snd (handleSingle cfg sc token proxy s))
         = stats_failed s + stats_invalid s + 1"
proof (cases "fetch_res sc = FetchResolves True")
  case False
  obtain s2 where "handleSingle cfg sc token proxy s
             = handleError cfg (Error (''Invalid token '' @ shortT token)) s2"
      "stats_total s2 = stats_total s" "stats_success s2 = stats_success s"
      "stats_failed s2 = stats_failed s" "stats_invalid s2 = stats_invalid s + 1"
    using handleSingle_invalid [OF False] by blast
  then show ?thesis by simp
next
  case True
  show ?thesis
  proof (cases "fst (voteForBot cfg sc token proxy (vote_entry cfg token proxy s))")
    case (Inr b)
    with handleSingle_voted(1) [OF True Inr] assms show ?thesis by simp
  next
    case (Inl err)
    obtain s4 where "handleSingle cfg sc token proxy s
             = handleError cfg (Error (''Token '' @ shortT token @ '' error: '' @ message err)) s4"
      "stats_total s4 = stats_total s" "stats_success s4 = stats_success s"
      "stats_failed s4 = stats_failed s + 1" "stats_invalid s4 = stats_invalid s"
      using handleSingle_vote_raised [OF True Inl] by blast
    then show ?thesis by simp
  qed
qed

lemma dispatched_append:
  "calls s' = calls s @ cs \<Longrightarrow> dispatched s' = dispatched s @ concat (map dispatch_of cs)"
  by (simp add: dispatched_def)

lemma dispatched_cong: "calls s' = calls s \<Longrightarrow> dispatched s' = dispatched s"
  by (simp add: dispatched_def)

lemma voteForBot_dispatched:
  "dispatched (snd (voteForBot cfg sc token proxy s)) = dispatched s"
proof -
  obtain lg cs where "snd (voteForBot cfg sc token proxy s) = s\<lparr>out := out s @ lg, calls := calls s @ cs\<rparr>"
      "dispatched (s\<lparr>calls := cs\<rparr>) = []"
    using voteForBot_frame by blast
  then show ?thesis by (simp add: dispatched_def)
qed

lemma handleSingle_dispatched:
  "dispatched (snd (handleSingle cfg sc token proxy s)) = dispatched s @ [(token, proxy)]"
proof (cases "fetch_res sc = FetchResolves True")
  case False
  obtain s2 where 2: "handleSingle cfg sc token proxy s
             = handleError cfg (Error (''Invalid token '' @ shortT token)) s2"
      "calls s2 = calls s @ [Dispatch token proxy, Fetch token]"
    using handleSingle_invalid [OF False] by blast
  have "dispatched (snd (handleSingle cfg sc token proxy s)) = dispatched s2"
    by (rule dispatched_cong) (simp add: 2(1))
  also have "\<dots> = dispatched s @ [(token, proxy)]"
    using dispatched_append [OF 2(2)] by simp
  finally show ?thesis .
next
  case True
  have e: "dispatched (vote_entry cfg token proxy s) = dispatched s @ [(token, proxy)]"
    by (simp add: dispatched_def vote_entry_state)
  show ?thesis
  proof (cases "fst (voteForBot cfg sc token proxy (vote_entry cfg token proxy s))")
    case (Inr b)
    have "dispatched (snd (handleSingle cfg sc token proxy s))
        = dispatched (snd (voteForBot cfg sc token proxy (vote_entry cfg token proxy s)))"
      by (rule dispatched_cong) (rule handleSingle_voted(8) [OF True Inr])
    then show ?thesis by (simp add: voteForBot_dispatched e)
  next
    case (Inl err)
    obtain s4 where 4: "handleSingle cfg sc token proxy s
             = handleError cfg (Error (''Token '' @ shortT token @ '' error: '' @ message err)) s4"
      "calls s4 = calls (snd (voteForBot cfg sc token proxy (vote_entry cfg token proxy s)))"
      using handleSingle_vote_raised [OF True Inl] by blast
    have "dispatched (snd (handleSingle cfg sc token proxy s)) = dispatched s4"
      by (rule dispatched_cong) (simp add: 4(1))
    also have "\<dots> = dispatched (snd (voteForBot cfg sc token proxy (vote_entry cfg token proxy s)))"
      by (rule dispatched_cong) (rule 4(2))
    finally show ?thesis by (simp add: voteForBot_dispatched e)
  qed
qed

section \<open>The cycles\<close>


lemma one_outcome_cong:
  "one_outcome s s' \<Longrightarrow> stats_total s0 = stats_total s \<Longrightarrow> stats_success s0 = stats_success s \<Longrightarrow>
   stats_failed s0 = stats_failed s \<Longrightarrow> stats_invalid s0 = stats_invalid s \<Longrightarrow>
   stats_total s1 = stats_total s' \<Longrightarrow> stats_success s1 = stats_success s' \<Longrightarrow>
   stats_failed s1 = stats_failed s' \<Longrightarrow> stats_invalid s1 = stats_invalid s' \<Longrightarrow>
   one_outcome s0 s1"
  by (simp add: one_outcome_def)

text \<open>A worker with its catch handler, as both cycles run it.\<close>

lemma guarded_worker:
  fixes msg :: "error \<Rightarrow> log_msg"
  defines "w \<equiv> \<lambda>cfg sc token proxy. catchE (handleSingle cfg sc token proxy)
       (\<lambda>err s1. handleError cfg err (log cfg (msg err) s1))"
  shows "one_outcome s (snd (w cfg sc token proxy s))"
    and "dispatched (snd (w cfg sc token proxy s)) = dispatched s @ [(token, proxy)]"
proof -
  have o: "one_outcome s (snd (handleSingle cfg sc token proxy s))"
    by (rule handleSingle_one_outcome)
  have d: "dispatched (snd (handleSingle cfg sc token proxy s)) = dispatched s @ [(token, proxy)]"
    by (rule handleSingle_dispatched)
  show "one_outcome s (snd (w cfg sc token proxy s))"
  proof (cases "handleSingle cfg sc token proxy s")
    case (Pair r s1)
    then show ?thesis
      using o by (cases r) (auto simp: w_def catchE_def elim!: one_outcome_cong)
  qed
  show "dispatched (snd (w cfg sc token proxy s)) = dispatched s @ [(token, proxy)]"
  proof (cases "handleSingle cfg sc token proxy s")
    case (Pair r s1)
    then show ?thesis
      using d by (cases r) (auto simp: w_def catchE_def dispatched_def)
  qed
qed


lemma sequentialStep_dispatched:
  "dispatched (snd (sequentialStep cfg env i s)) = dispatched s @ [(tokenList cfg ! i, proxy_at cfg i)]"
proof -
  have "dispatched (snd (sequentialStep cfg env i s))
      = dispatched (log cfg (LogProcessing (i + 1) (length (tokenList cfg))) s) @
          [(tokenList cfg ! i, proxy_at cfg i)]"
    unfolding sequentialStep_def by (rule guarded_worker(2))
  then show ?thesis by (simp add: dispatched_def)
qed


lemma parallelWorker_dispatched:
  "dispatched (snd (parallelWorker cfg env i s)) = dispatched s @ [(tokenList cfg ! i, proxy_at cfg i)]"
  unfolding parallelWorker_def by (rule guarded_worker(2))

lemma proxy_at_spec: "proxy_at cfg i = spec_proxy (proxies cfg) i"
  by (simp add: proxy_at_def spec_proxy_def js_rem_def js_index_def)

lemma sequentialLoop_done: "\<not> i < n \<Longrightarrow> sequentialLoop cfg env i n s = (Inr (), s)"
  by (subst sequentialLoop.simps) simp

lemma sequentialLoop_step:
  "i < n \<Longrightarrow> sequentialLoop cfg env i n s =
     (case sequentialStep cfg env i s of
        (Inl e, s1) \<Rightarrow> (Inl e, s1)
      | (Inr u, s1) \<Rightarrow> sequentialLoop cfg env (Suc i) n s1)"
  by (subst sequentialLoop.simps) (simp split: prod.splits sum.splits)

lemma parallelWorkers_done: "\<not> i < n \<Longrightarrow> parallelWorkers cfg env i n s = ([], s)"
  by (subst parallelWorkers.simps) simp

lemma parallelWorkers_step:
  "i < n \<Longrightarrow> parallelWorkers cfg env i n s =
     (case parallelWorker cfg env i s of
        (r, s1) \<Rightarrow> (case parallelWorkers cfg env (Suc i) n s1 of (rs, s2) \<Rightarrow> (r # rs, s2)))"
  by (subst parallelWorkers.simps) (simp split: prod.splits)



text \<open>The accounts the loop dispatches are those from \<open>i\<close> up to where it stops.\<close>

lemma sequentialLoop_dispatched:
  "i \<le> n \<Longrightarrow>
   \<exists>k. i \<le> k \<and> k \<le> n \<and>
     dispatched (snd (sequentialLoop cfg env i n s))
       = dispatched s @ map (spec_dispatch cfg) [i..<k] \<and>
     (fst (sequentialLoop cfg env i n s) = Inr () \<longrightarrow> k = n)"
proof (induction "n - i" arbitrary: i s)
  case 0
  then have "sequentialLoop cfg env i n s = (Inr (), s)" and "i = n"
    by (simp_all add: sequentialLoop_done)
  then show ?case by (intro exI [of _ n]) simp
next
  case (Suc d)
  then have lt: "i < n" and d: "d = n - Suc i" and le: "Suc i \<le> n" by simp_all
  obtain r s1 where st: "sequentialStep cfg env i s = (r, s1)"
    by (cases "sequentialStep cfg env i s")
  have d1: "dispatched s1 = dispatched s @ [spec_dispatch cfg i]"
    using sequentialStep_dispatched [of cfg env i s] st
    by (simp add: spec_dispatch_def proxy_at_spec)
  show ?case
  proof (cases r)
    case (Inl e)
    with st lt have "sequentialLoop cfg env i n s = (Inl e, s1)"
      by (simp add: sequentialLoop_step)
    with d1 lt show ?thesis by (intro exI [of _ "Suc i"]) simp
  next
    case (Inr u)
    with st have eq: "sequentialLoop cfg env i n s = sequentialLoop cfg env (Suc i) n s1"
      using lt by (simp add: sequentialLoop_step)
    obtain k where k: "Suc i \<le> k" "k \<le> n"
        "dispatched (snd (sequentialLoop cfg env (Suc i) n s1))
           = dispatched s1 @ map (spec_dispatch cfg) [Suc i..<k]"
        "fst (sequentialLoop cfg env (Suc i) n s1) = Inr () \<longrightarrow> k = n"
      using Suc.hyps(1) [OF d le, of s1] by blast
    have "[i..<k] = i # [Suc i..<k]" using k(1) by (simp add: upt_conv_Cons)
    with k d1 eq show ?thesis by (intro exI [of _ k]) simp
  qed
qed

lemma parallelWorkers_dispatched:
  "i \<le> n \<Longrightarrow>
   dispatched (snd (parallelWorkers cfg env i n s)) = dispatched s @ map (spec_dispatch cfg) [i..<n]"
proof (induction "n - i" arbitrary: i s)
  case 0
  then show ?case by (simp add: parallelWorkers_done)
next
  case (Suc d)
  then have lt: "i < n" and d: "d = n - Suc i" and le: "Suc i \<le> n" by simp_all
  obtain r s1 where st: "parallelWorker cfg env i s = (r, s1)"
    by (cases "parallelWorker cfg env i s")
  have d1: "dispatched s1 = dispatched s @ [spec_dispatch cfg i]"
    using parallelWorker_dispatched [of cfg env i s] st
    by (simp add: spec_dispatch_def proxy_at_spec)
  have "snd (parallelWorkers cfg env i n s) = snd (parallelWorkers cfg env (Suc i) n s1)"
    using lt st by (simp add: parallelWorkers_step split: prod.splits)
  moreover have "[i..<n] = i # [Suc i..<n]" using lt by (simp add: upt_conv_Cons)
  ultimately show ?case using Suc.hyps(1) [OF d le, of s1] d1 by simp
qed





lemma parallelCycle_resolves: "fst (parallelCycle cfg env s) = Inr ()"
  by (simp add: parallelCycle_def allSettled_def split: prod.splits)

lemma parallelCycle_state:
  "snd (parallelCycle cfg env s) = snd (parallelWorkers cfg env 0 (length (tokenList cfg)) s)"
  by (simp add: parallelCycle_def allSettled_def split: prod.splits)

section \<open>Facts about the example inputs\<close>

lemma five_waits_status: "fst (waitForVoteStatus cfg ps_five_waits 60000 s) = Inr StVote"
proof -
  have "fst (pollLoop cfg ps_five_waits 60000 0 0 s) = Inr (page_status ''You can vote now!'')"
  proof (rule pollLoop_first_terminal [where k = 5])
    show "\<forall>j<5. still_waiting (ps_five_waits (0 + j))"
      by (simp add: ps_five_waits_waiting)
    show "elapsed_from ps_five_waits 0 0 5 < 60000"
      using probe_start_five by (simp add: probe_start_elapsed)
    show "outcome (ps_five_waits (0 + 5)) = Inr ''You can vote now!''"
      by (simp add: ps_five_waits_def)
    show "page_status ''You can vote now!'' \<noteq> StWait"
      by (simp add: page_status_def)
  qed
  then show ?thesis by (simp add: waitForVoteStatus_def page_status_def)
qed

lemma already_status:
  "fst (waitForVoteStatus cfg (\<lambda>k. \<lparr>latency = 0, outcome = Inr ''You have already voted''\<rparr>) 60000 s)
     = Inr StAlready"
proof -
  have "page_status ''You have already voted'' = StAlready"
    by (simp add: page_status_def)
  then show ?thesis
    unfolding waitForVoteStatus_def
    using pollLoop_terminal [of 0 60000 "\<lambda>k. \<lparr>latency = 0, outcome = Inr ''You have already voted''\<rparr>"
        0 "''You have already voted''" cfg s]
    by simp
qed

lemma never_status:
  "fst (waitForVoteStatus cfg (\<lambda>k. \<lparr>latency = 0, outcome = Inr ''Loading''\<rparr>) 60000 s) = Inr StTimeout"
  unfolding waitForVoteStatus_def
  by (rule pollLoop_all_waiting) (simp add: still_waiting_def page_status_def)

lemma reaches_poll_sc_vote: "reaches_poll sc_vote"
  by (simp add: reaches_poll_def sc_vote_def)

lemma shortT_TOKEN1: "shortT ''TOKEN1'' = ''TOKEN...''"
  by (simp add: shortT_def)

section \<open>Invalid credentials\<close>

lemma handleError_cong:
  "handled s2 = handled s \<Longrightarrow> err_out s2 = err_out s \<Longrightarrow>
   fst (handleError cfg e s2) = fst (handleError cfg e s) \<and>
   handled (snd (handleError cfg e s2)) = handled (snd (handleError cfg e s)) \<and>
   err_out (snd (handleError cfg e s2)) = err_out (snd (handleError cfg e s))"
  by (simp add: handleError_def split: option.splits)

text \<open>
  C6. For a token whose check resolves not-ok or rejects, the worker counts it as invalid
  and as nothing else, hands the error \<^verbatim>\<open>Invalid token <shortT>\<close> to the error policy
  (it settles as \<open>handleError\<close> settles on that error, and the handler's history grows
  as \<open>handleError\<close> makes it grow), and the calls it makes are its own dispatch and the
  credential check: no \<open>Connect\<close>, so no browser session, and no \<open>Close\<close>.
\<close>

theorem invalid_credential:
  "fetch_res sc = FetchResolves False \<or> fetch_res sc = FetchRejects e \<longrightarrow>
     stats_invalid (snd (handleSingle cfg sc token proxy s)) = stats_invalid s + 1 \<and>
     stats_success (snd (handleSingle cfg sc token proxy s)) = stats_success s \<and>
     stats_failed (snd (handleSingle cfg sc token proxy s)) = stats_failed s \<and>
     fst (handleSingle cfg sc token proxy s)
       = fst (handleError cfg (Error (''Invalid token '' @ shortT token)) s) \<and>
     handled (snd (handleSingle cfg sc token proxy s))
       = handled (snd (handleError cfg (Error (''Invalid token '' @ shortT token)) s)) \<and>
     calls (snd (handleSingle cfg sc token proxy s)) = calls s @ [Dispatch token proxy, Fetch token]"
proof
  assume "fetch_res sc = FetchResolves False \<or> fetch_res sc = FetchRejects e"
  then have "fetch_res sc \<noteq> FetchResolves True" by auto
  then obtain s2 where 2:
      "handleSingle cfg sc token proxy s = handleError cfg (Error (''Invalid token '' @ shortT token)) s2"
      "stats_total s2 = stats_total s" "stats_success s2 = stats_success s"
      "stats_failed s2 = stats_failed s" "stats_invalid s2 = stats_invalid s + 1"
      "handled s2 = handled s" "err_out s2 = err_out s"
      "calls s2 = calls s @ [Dispatch token proxy, Fetch token]"
    using handleSingle_invalid [of sc cfg token proxy s] by blast
  show "stats_invalid (snd (handleSingle cfg sc token proxy s)) = stats_invalid s + 1 \<and>
     stats_success (snd (handleSingle cfg sc token proxy s)) = stats_success s \<and>
     stats_failed (snd (handleSingle cfg sc token proxy s)) = stats_failed s \<and>
     fst (handleSingle cfg sc token proxy s)
       = fst (handleError cfg (Error (''Invalid token '' @ shortT token)) s) \<and>
     handled (snd (handleSingle cfg sc token proxy s))
       = handled (snd (handleError cfg (Error (''Invalid token '' @ shortT token)) s)) \<and>
     calls (snd (handleSingle cfg sc token proxy s)) = calls s @ [Dispatch token proxy, Fetch token]"
    using 2 handleError_cong [OF 2(6) 2(7), of cfg "Error (''Invalid token '' @ shortT token)"]
    by simp
qed

theorem invalid_credential_witness:
  "stats_invalid (snd (handleSingle cfg_absorb sc_invalid ''TOKEN2'' None s_fresh)) = 1 \<and>
   fst (handleSingle cfg_absorb sc_invalid ''TOKEN2'' None s_fresh) = Inr () \<and>
   handled (snd (handleSingle cfg_absorb sc_invalid ''TOKEN2'' None s_fresh))
     = [Error ''Invalid token TOKEN...''] \<and>
   calls (snd (handleSingle cfg_absorb sc_invalid ''TOKEN2'' None s_fresh))
     = [Dispatch ''TOKEN2'' None, Fetch ''TOKEN2'']"
proof -
  have f: "fetch_res sc_invalid = FetchResolves False"
    by (simp add: sc_invalid_def)
  have h: "handleError cfg_absorb (Error ''Invalid token TOKEN...'') s_fresh
      = (Inr (), s_fresh\<lparr>handled := [Error ''Invalid token TOKEN...'']\<rparr>)"
    by (simp add: handleError_def cfg_absorb_def absorb_def s_fresh_def)
  show ?thesis
    using invalid_credential [of sc_invalid e cfg_absorb "''TOKEN2''" None s_fresh] f h
    by (simp add: shortT_def s_fresh_def)
qed

section \<open>One outcome for each attempt\<close>

text \<open>
  C3, as the code has it. Every run of the worker raises exactly one of the three
  counters by exactly one, and this holds for a run that rejects, too: when the error
  leaves the worker, the account has been counted as failed or as invalid, and not as
  a success.
\<close>

theorem worker_records_outcome:
  "one_outcome s (snd (handleSingle cfg sc token proxy s)) \<and>
   (fst (handleSingle cfg sc token proxy s) = Inl e \<longrightarrow>
      stats_success (snd (handleSingle cfg sc token proxy s)) = stats_success s \<and>
      stats_failed (snd (handleSingle cfg sc token proxy s)) +
        stats_invalid (snd (handleSingle cfg sc token proxy s))
      = stats_failed s + stats_invalid s + 1)"
  using handleSingle_one_outcome [of s cfg sc token proxy]
    handleSingle_rejected [of cfg sc token proxy s e]
  by blast

lemma login_fails:
  "fst (login cfg sc_login_fails t s)
     = Inl (Error ''Authorization failed - Discord OAuth did not complete'')"
  by (simp add: login_def bindE_def logE_def await_def evalClick_def sc_login_fails_def sc_vote_def
      split: prod.splits sum.splits option.splits)

lemma voteForBot_connected_result:
  assumes "connect_res sc = Connected"
  shows "\<exists>s3. fst (voteForBot cfg sc token proxy s)
           = fst (bindE (login cfg sc (shortT token)) (\<lambda>u. vote cfg sc (shortT token)) s3)"
proof -
  define s3 where "s3 = record_call (Connect (opts_proxy proxy)) (log cfg LogAttemptConnect
     (case opts_proxy proxy of None \<Rightarrow> log cfg (LogConnecting (shortT token)) s
      | Some x \<Rightarrow> log cfg (LogUsingProxy x) (log cfg (LogConnecting (shortT token)) s)))"
  have "fst (voteForBot cfg sc token proxy s)
      = fst (bindE (login cfg sc (shortT token)) (\<lambda>u. vote cfg sc (shortT token)) s3)"
    using assms by (simp add: voteForBot_def Let_def s3_def split: prod.splits sum.splits)
  then show ?thesis by blast
qed

lemma voteForBot_login_fails:
  "fst (voteForBot cfg sc_login_fails token proxy s)
     = Inl (Error ''Authorization failed - Discord OAuth did not complete'')"
proof -
  have "connect_res sc_login_fails = Connected"
    by (simp add: sc_login_fails_def sc_vote_def)
  then obtain s3 where "fst (voteForBot cfg sc_login_fails token proxy s)
      = fst (bindE (login cfg sc_login_fails (shortT token))
               (\<lambda>u. vote cfg sc_login_fails (shortT token)) s3)"
    using voteForBot_connected_result by blast
  moreover have "fst (bindE (login cfg sc_login_fails (shortT token))
               (\<lambda>u. vote cfg sc_login_fails (shortT token)) s3)
      = Inl (Error ''Authorization failed - Discord OAuth did not complete'')"
    using login_fails [of cfg "shortT token" s3]
    by (cases "login cfg sc_login_fails (shortT token) s3") (simp add: bindE_def)
  ultimately show ?thesis by simp
qed

text \<open>
  With no handler, the worker of an account whose login fails rejects, and the account
  is counted as failed all the same.
\<close>

theorem propagated_error_is_counted:
  "errorLog cfg_quiet = None \<and>
   fst (handleSingle cfg_quiet sc_login_fails ''TOKEN1'' None s_fresh)
     = Inl (Error ''Token TOKEN... error: Authorization failed - Discord OAuth did not complete'') \<and>
   stats_failed s_fresh = 0 \<and>
   stats_failed (snd (handleSingle cfg_quiet sc_login_fails ''TOKEN1'' None s_fresh)) = 1"
proof -
  have n: "errorLog cfg_quiet = None" by (simp add: cfg_quiet_def)
  have v: "fetch_res sc_login_fails = FetchResolves True"
    by (simp add: sc_login_fails_def sc_vote_def)
  obtain s4 where 4: "handleSingle cfg_quiet sc_login_fails ''TOKEN1'' None s_fresh
      = handleError cfg_quiet (Error (''Token '' @ shortT ''TOKEN1'' @ '' error: '' @
          message (Error ''Authorization failed - Discord OAuth did not complete''))) s4"
      "stats_failed s4 = stats_failed s_fresh + 1"
    using handleSingle_vote_raised [OF v voteForBot_login_fails] by blast
  show ?thesis
    using 4 n by (simp add: handleError_absent shortT_def s_fresh_def)
qed

theorem worker_records_outcome_witness:
  "stats_success (snd (handleSingle cfg_quiet sc_login_fails ''TOKEN1'' None s_fresh)) = 0 \<and>
   stats_failed (snd (handleSingle cfg_quiet sc_login_fails ''TOKEN1'' None s_fresh)) +
     stats_invalid (snd (handleSingle cfg_quiet sc_login_fails ''TOKEN1'' None s_fresh)) = 1"
proof -
  have n: "errorLog cfg_quiet = None" by (simp add: cfg_quiet_def)
  have v: "fetch_res sc_login_fails = FetchResolves True"
    by (simp add: sc_login_fails_def sc_vote_def)
  obtain s4 where 4: "handleSingle cfg_quiet sc_login_fails ''TOKEN1'' None s_fresh
      = handleError cfg_quiet (Error (''Token '' @ shortT ''TOKEN1'' @ '' error: '' @
          message (Error ''Authorization failed - Discord OAuth did not complete''))) s4"
    using handleSingle_vote_raised [OF v voteForBot_login_fails] by blast
  have r: "fst (handleSingle cfg_quiet sc_login_fails ''TOKEN1'' None s_fresh)
      = Inl (Error (''Token '' @ shortT ''TOKEN1'' @ '' error: '' @
          message (Error ''Authorization failed - Discord OAuth did not complete'')))"
    using 4 n by (simp add: handleError_absent)
  show ?thesis
    using worker_records_outcome [of s_fresh cfg_quiet sc_login_fails "''TOKEN1''" None
        "Error (''Token '' @ shortT ''TOKEN1'' @ '' error: '' @
          message (Error ''Authorization failed - Discord OAuth did not complete''))"] r
    by (simp add: s_fresh_def)
qed

section \<open>The statistics of a cycle\<close>

lemma absorbing_handleError:
  "errorLog cfg = Some h \<Longrightarrow> (\<And>hist e. h hist e = None) \<Longrightarrow> fst (handleError cfg e s) = Inr ()"
  by (simp add: handleError_def)

lemma absorbing_sequentialStep:
  assumes "errorLog cfg = Some h" and "\<And>hist e. h hist e = None"
  shows "fst (sequentialStep cfg env i s) = Inr ()"
proof (cases "handleSingle cfg (env i) (tokenList cfg ! i) (proxy_at cfg i)
    (log cfg (LogProcessing (i + 1) (length (tokenList cfg))) s)")
  case (Pair r s1)
  then show ?thesis
    using absorbing_handleError [OF assms]
    by (cases r) (simp_all add: sequentialStep_def catchE_def)
qed

lemma absorbing_sequentialLoop:
  assumes "errorLog cfg = Some h" and "\<And>hist e. h hist e = None"
  shows "fst (sequentialLoop cfg env i n s) = Inr ()"
proof (induction "n - i" arbitrary: i s)
  case 0
  then show ?case by (simp add: sequentialLoop_done)
next
  case (Suc d)
  then have lt: "i < n" and d: "d = n - Suc i" by simp_all
  obtain s1 where "sequentialStep cfg env i s = (Inr (), s1)"
    using absorbing_sequentialStep [OF assms, of env i s]
    by (cases "sequentialStep cfg env i s") simp
  with lt have "sequentialLoop cfg env i n s = sequentialLoop cfg env (Suc i) n s1"
    by (simp add: sequentialLoop_step)
  with Suc.hyps(1) [OF d, of s1] show ?case by simp
qed






section \<open>The proxy of an account\<close>

text \<open>
  C9. \<^verbatim>\<open>this.proxies[i % this.proxies.length]\<close> is the proxy at index \<open>i mod M\<close> of a list of
  \<open>M > 0\<close> proxies and no proxy for the empty list. The serial cycle dispatches the
  accounts \<open>0\<close> up to where it stops, in order, each with its token and that proxy, and
  all of them when it resolves; the parallel cycle dispatches every account so.
\<close>

theorem proxy_assignment:
  "proxy_at cfg i = spec_proxy (proxies cfg) i \<and>
   (0 < length (proxies cfg) \<longrightarrow> proxy_at cfg i = Some (proxies cfg ! (i mod length (proxies cfg)))) \<and>
   (length (proxies cfg) = 0 \<longrightarrow> proxy_at cfg i = None) \<and>
   (\<exists>k\<le>length (tokenList cfg).
      dispatched (snd (sequentialCycle cfg env s)) = dispatched s @ map (spec_dispatch cfg) [0..<k] \<and>
      (fst (sequentialCycle cfg env s) = Inr () \<longrightarrow> k = length (tokenList cfg))) \<and>
   dispatched (snd (parallelCycle cfg env s))
     = dispatched s @ map (spec_dispatch cfg) [0..<length (tokenList cfg)]"
proof -
  have a: "proxy_at cfg i = spec_proxy (proxies cfg) i" by (rule proxy_at_spec)
  have b: "\<exists>k\<le>length (tokenList cfg).
      dispatched (snd (sequentialCycle cfg env s)) = dispatched s @ map (spec_dispatch cfg) [0..<k] \<and>
      (fst (sequentialCycle cfg env s) = Inr () \<longrightarrow> k = length (tokenList cfg))"
    using sequentialLoop_dispatched [of 0 "length (tokenList cfg)" cfg env s]
    by (simp add: sequentialCycle_def)
  have c: "dispatched (snd (parallelCycle cfg env s))
     = dispatched s @ map (spec_dispatch cfg) [0..<length (tokenList cfg)]"
    using parallelWorkers_dispatched [of 0 "length (tokenList cfg)" cfg env s]
    by (simp add: parallelCycle_state)
  show ?thesis using a b c by (simp add: spec_proxy_def)
qed

theorem proxy_assignment_witness:
  "proxy_at cfg_proxies 2 = Some ''http://p0:8080'' \<and>
   proxy_at cfg_quiet 1 = None \<and>
   dispatched (snd (parallelCycle cfg_proxies (\<lambda>i. sc_invalid) s_fresh))
     = [(''TOKEN1'', Some ''http://p0:8080''), (''TOKEN2'', Some ''http://p1:8080''),
        (''TOKEN3'', Some ''http://p0:8080'')] \<and>
   dispatched (snd (sequentialCycle (cfg_proxies\<lparr>errorLog := Some absorb\<rparr>) (\<lambda>i. sc_invalid) s_fresh))
     = [(''TOKEN1'', Some ''http://p0:8080''), (''TOKEN2'', Some ''http://p1:8080''),
        (''TOKEN3'', Some ''http://p0:8080'')]"
proof -
  have r: "fst (sequentialCycle (cfg_proxies\<lparr>errorLog := Some absorb\<rparr>) (\<lambda>i. sc_invalid) s_fresh) = Inr ()"
    unfolding sequentialCycle_def
    by (rule absorbing_sequentialLoop [where h = absorb]) (simp_all add: absorb_def)
  have d: "dispatched s_fresh = []" by (simp add: dispatched_def s_fresh_def)
  have m: "map (spec_dispatch cfg_proxies) [0..<3]
      = [(''TOKEN1'', Some ''http://p0:8080''), (''TOKEN2'', Some ''http://p1:8080''),
         (''TOKEN3'', Some ''http://p0:8080'')]"
    "map (spec_dispatch (cfg_proxies\<lparr>errorLog := Some absorb\<rparr>)) [0..<3]
      = [(''TOKEN1'', Some ''http://p0:8080''), (''TOKEN2'', Some ''http://p1:8080''),
         (''TOKEN3'', Some ''http://p0:8080'')]"
    by (simp_all add: spec_dispatch_def spec_proxy_def cfg_proxies_def cfg_quiet_def upt_rec)
  have l: "length (tokenList cfg_proxies) = 3" "length (proxies cfg_proxies) = 2"
    "length (proxies cfg_quiet) = 0" "proxies cfg_proxies ! 0 = ''http://p0:8080''"
    by (simp_all add: cfg_proxies_def cfg_quiet_def)
  show ?thesis
    using proxy_assignment [of cfg_proxies 2 "\<lambda>i. sc_invalid" s_fresh]
      proxy_assignment [of cfg_quiet 1 "\<lambda>i. sc_invalid" s_fresh]
      proxy_assignment [of "cfg_proxies\<lparr>errorLog := Some absorb\<rparr>" 2 "\<lambda>i. sc_invalid" s_fresh]
      r d m l
    by auto
qed

section \<open>Teardown of the session\<close>

text \<open>
  C7, as the code has it. When the connection resolved, whatever the routine then does
  (it returns true or false, or it throws), its calls are the connect, clicks, and one
  \<open>Close\<close> as the last; the routine settles the same way whatever \<^verbatim>\<open>browser.close()\<close>
  does, so a failing teardown is not thrown on and replaces nothing. The failure of the
  teardown is handed to \<^verbatim>\<open>_log\<close>: with \<open>verbose\<close> on it is the last line of the log, with
  \<open>verbose\<close> off the routine writes no line at all.
\<close>

theorem teardown_always_runs:
  "connect_res sc = Connected \<longrightarrow>
     (\<exists>ks. calls (snd (voteForBot cfg sc token proxy s))
              = calls s @ Connect (opts_proxy proxy) # ks @ [Close] \<and>
            list_all is_click ks) \<and>
     fst (voteForBot cfg (sc\<lparr>close_res := c\<rparr>) token proxy s) = fst (voteForBot cfg sc token proxy s) \<and>
     (close_res sc = Some ce \<longrightarrow>
        (verbose cfg \<longrightarrow>
           last (out (snd (voteForBot cfg sc token proxy s)))
             = LogErrorClosing (shortT token) (message ce)) \<and>
        (\<not> verbose cfg \<longrightarrow> out (snd (voteForBot cfg sc token proxy s)) = out s))"
proof
  assume c: "connect_res sc = Connected"
  obtain lg ks where 1: "snd (voteForBot cfg sc token proxy s)
           = s\<lparr>out := out s @ lg, calls := calls s @ Connect (opts_proxy proxy) # ks @ [Close]\<rparr>"
      "list_all is_click ks" "\<not> verbose cfg \<longrightarrow> lg = []"
      "verbose cfg \<longrightarrow> lg \<noteq> [] \<and>
            last lg = (case close_res sc of None \<Rightarrow> LogClosed (shortT token)
                       | Some ce \<Rightarrow> LogErrorClosing (shortT token) (message ce))"
    using voteForBot_connected [OF c, of cfg token proxy s] by blast
  have a: "\<exists>ks. calls (snd (voteForBot cfg sc token proxy s))
              = calls s @ Connect (opts_proxy proxy) # ks @ [Close] \<and> list_all is_click ks"
    using 1(1,2) by auto
  have b: "close_res sc = Some ce \<longrightarrow>
        (verbose cfg \<longrightarrow>
           last (out (snd (voteForBot cfg sc token proxy s)))
             = LogErrorClosing (shortT token) (message ce)) \<and>
        (\<not> verbose cfg \<longrightarrow> out (snd (voteForBot cfg sc token proxy s)) = out s)"
    using 1(1,3,4) by auto
  show "(\<exists>ks. calls (snd (voteForBot cfg sc token proxy s))
              = calls s @ Connect (opts_proxy proxy) # ks @ [Close] \<and>
            list_all is_click ks) \<and>
     fst (voteForBot cfg (sc\<lparr>close_res := c\<rparr>) token proxy s) = fst (voteForBot cfg sc token proxy s) \<and>
     (close_res sc = Some ce \<longrightarrow>
        (verbose cfg \<longrightarrow>
           last (out (snd (voteForBot cfg sc token proxy s)))
             = LogErrorClosing (shortT token) (message ce)) \<and>
        (\<not> verbose cfg \<longrightarrow> out (snd (voteForBot cfg sc token proxy s)) = out s))"
    using a b voteForBot_close_indep [where cfg = cfg and sc = sc and c = c and token = token and proxy = proxy and s = s] by blast
qed

lemma sc_vote_facts:
  "fetch_res sc_vote = FetchResolves True" "connect_res sc_vote = Connected"
  "probes sc_vote = ps_five_waits"
  "vote_click_res sc_vote = Inr [(''Share'', False), (''Vote'', False)]"
  "login_click_res sc_vote = Inr [(''Login'', False)]"
  by (simp_all add: sc_vote_def)

lemma sc_vote_result: "fst (voteForBot cfg sc_vote token proxy s) = Inr True"
  using voteForBot_result(1) [OF reaches_poll_sc_vote, where st = StVote and cfg' = cfg and s0 = s
      and cfg = cfg and token = token and proxy = proxy and s = s]
    five_waits_status [of cfg s]
  by (simp add: sc_vote_facts)

theorem teardown_always_runs_witness:
  "fst (voteForBot cfg_verbose sc_close_fails ''TOKEN1'' None s_fresh) = Inr True \<and>
   last (out (snd (voteForBot cfg_verbose sc_close_fails ''TOKEN1'' None s_fresh)))
     = LogErrorClosing ''TOKEN...'' ''Target closed'' \<and>
   out (snd (voteForBot cfg_quiet sc_close_fails ''TOKEN1'' None s_fresh)) = []"
proof -
  have c: "connect_res sc_close_fails = Connected" "connect_res sc_vote = Connected"
    "close_res sc_close_fails = Some (Error ''Target closed'')"
    by (simp_all add: sc_close_fails_def sc_vote_def)
  have v: "verbose cfg_verbose" "\<not> verbose cfg_quiet"
    by (simp_all add: cfg_verbose_def cfg_quiet_def)
  show ?thesis
    using teardown_always_runs [where sc = sc_vote and cfg = cfg_verbose and token = "''TOKEN1''"
        and proxy = None and s = s_fresh and c = "Some (Error ''Target closed'')"]
      teardown_always_runs [where sc = sc_close_fails and cfg = cfg_verbose and token = "''TOKEN1''"
        and proxy = None and s = s_fresh and ce = "Error ''Target closed''"]
      teardown_always_runs [where sc = sc_close_fails and cfg = cfg_quiet and token = "''TOKEN1''"
        and proxy = None and s = s_fresh and ce = "Error ''Target closed''"]
      c v sc_vote_result [of cfg_verbose "''TOKEN1''" None s_fresh]
    by (simp add: sc_close_fails_def [symmetric] shortT_def s_fresh_def)
qed

text \<open>
  With \<open>verbose\<close> off, which is the default, a teardown that fails leaves no line in the
  log.
\<close>

theorem quiet_teardown_failure_not_logged:
  "connect_res sc_close_fails = Connected \<and>
   close_res sc_close_fails = Some (Error ''Target closed'') \<and>
   \<not> verbose cfg_quiet \<and>
   out (snd (voteForBot cfg_quiet sc_close_fails ''TOKEN1'' None s_fresh)) = []"
proof -
  have c: "connect_res sc_close_fails = Connected"
    by (simp add: sc_close_fails_def sc_vote_def)
  have q: "\<not> verbose cfg_quiet" by (simp add: cfg_quiet_def)
  obtain lg ks where "snd (voteForBot cfg_quiet sc_close_fails ''TOKEN1'' None s_fresh)
      = s_fresh\<lparr>out := out s_fresh @ lg,
          calls := calls s_fresh @ Connect (opts_proxy None) # ks @ [Close]\<rparr>"
      "\<not> verbose cfg_quiet \<longrightarrow> lg = []"
    using voteForBot_connected [OF c, of cfg_quiet "''TOKEN1''" None s_fresh] by blast
  with c q show ?thesis
    by (simp add: s_fresh_def sc_close_fails_def)
qed

section \<open>The poll result and the outcome\<close>

lemma valid_session_outcome:
  assumes v: "fetch_res sc = FetchResolves True" and r: "reaches_poll sc"
    and p: "fst (waitForVoteStatus cfg' (probes sc) 60000 s0) = Inr st"
  shows "st = StVote \<Longrightarrow> vote_click_res sc = Inr bs \<Longrightarrow>
           fst (handleSingle cfg sc token proxy s) = Inr () \<and>
           stats_success (snd (handleSingle cfg sc token proxy s)) = stats_success s + 1 \<and>
           stats_failed (snd (handleSingle cfg sc token proxy s)) = stats_failed s \<and>
           stats_invalid (snd (handleSingle cfg sc token proxy s)) = stats_invalid s \<and>
           handled (snd (handleSingle cfg sc token proxy s)) = handled s"
    and "st = StVote \<Longrightarrow> vote_click_res sc = Inl err \<Longrightarrow>
           stats_success (snd (handleSingle cfg sc token proxy s)) = stats_success s \<and>
           stats_failed (snd (handleSingle cfg sc token proxy s)) = stats_failed s + 1 \<and>
           stats_invalid (snd (handleSingle cfg sc token proxy s)) = stats_invalid s \<and>
           fst (handleSingle cfg sc token proxy s)
             = fst (handleError cfg (Error (''Token '' @ shortT token @ '' error: '' @ message err)) s) \<and>
           handled (snd (handleSingle cfg sc token proxy s))
             = handled (snd (handleError cfg
                 (Error (''Token '' @ shortT token @ '' error: '' @ message err)) s))"
    and "st \<noteq> StVote \<Longrightarrow>
           fst (handleSingle cfg sc token proxy s) = Inr () \<and>
           stats_success (snd (handleSingle cfg sc token proxy s)) = stats_success s \<and>
           stats_failed (snd (handleSingle cfg sc token proxy s)) = stats_failed s + 1 \<and>
           stats_invalid (snd (handleSingle cfg sc token proxy s)) = stats_invalid s \<and>
           handled (snd (handleSingle cfg sc token proxy s)) = handled s"
proof -
  have res: "fst (voteForBot cfg sc token proxy (vote_entry cfg token proxy s)) =
      (if st = StVote then (case vote_click_res sc of Inl e \<Rightarrow> Inl e | Inr bs \<Rightarrow> Inr True)
       else Inr False)"
    by (rule voteForBot_result(1) [OF r p])
  show "st = StVote \<Longrightarrow> vote_click_res sc = Inr bs \<Longrightarrow>
           fst (handleSingle cfg sc token proxy s) = Inr () \<and>
           stats_success (snd (handleSingle cfg sc token proxy s)) = stats_success s + 1 \<and>
           stats_failed (snd (handleSingle cfg sc token proxy s)) = stats_failed s \<and>
           stats_invalid (snd (handleSingle cfg sc token proxy s)) = stats_invalid s \<and>
           handled (snd (handleSingle cfg sc token proxy s)) = handled s"
  proof -
    assume "st = StVote" and "vote_click_res sc = Inr bs"
    with res have "fst (voteForBot cfg sc token proxy (vote_entry cfg token proxy s)) = Inr True"
      by simp
    from handleSingle_voted(1,3,4,5,6) [OF v this] show ?thesis by simp
  qed
  show "st = StVote \<Longrightarrow> vote_click_res sc = Inl err \<Longrightarrow>
           stats_success (snd (handleSingle cfg sc token proxy s)) = stats_success s \<and>
           stats_failed (snd (handleSingle cfg sc token proxy s)) = stats_failed s + 1 \<and>
           stats_invalid (snd (handleSingle cfg sc token proxy s)) = stats_invalid s \<and>
           fst (handleSingle cfg sc token proxy s)
             = fst (handleError cfg (Error (''Token '' @ shortT token @ '' error: '' @ message err)) s) \<and>
           handled (snd (handleSingle cfg sc token proxy s))
             = handled (snd (handleError cfg
                 (Error (''Token '' @ shortT token @ '' error: '' @ message err)) s))"
  proof -
    assume "st = StVote" and "vote_click_res sc = Inl err"
    with res have "fst (voteForBot cfg sc token proxy (vote_entry cfg token proxy s)) = Inl err"
      by simp
    then obtain s4 where 4: "handleSingle cfg sc token proxy s
             = handleError cfg (Error (''Token '' @ shortT token @ '' error: '' @ message err)) s4"
        "stats_total s4 = stats_total s" "stats_success s4 = stats_success s"
        "stats_failed s4 = stats_failed s + 1" "stats_invalid s4 = stats_invalid s"
        "handled s4 = handled s" "err_out s4 = err_out s"
      using handleSingle_vote_raised [OF v] by blast
    show ?thesis
      using 4 handleError_cong [OF 4(6) 4(7), of cfg
          "Error (''Token '' @ shortT token @ '' error: '' @ message err)"]
      by simp
  qed
  show "st \<noteq> StVote \<Longrightarrow>
           fst (handleSingle cfg sc token proxy s) = Inr () \<and>
           stats_success (snd (handleSingle cfg sc token proxy s)) = stats_success s \<and>
           stats_failed (snd (handleSingle cfg sc token proxy s)) = stats_failed s + 1 \<and>
           stats_invalid (snd (handleSingle cfg sc token proxy s)) = stats_invalid s \<and>
           handled (snd (handleSingle cfg sc token proxy s)) = handled s"
  proof -
    assume "st \<noteq> StVote"
    with res have "fst (voteForBot cfg sc token proxy (vote_entry cfg token proxy s)) = Inr False"
      by simp
    from handleSingle_voted(1,3,4,5,6) [OF v this] show ?thesis by simp
  qed
qed

text \<open>
  C8, as the code has it. Take a worker whose token is valid and whose session reaches
  the poll, and let \<open>st\<close> be the status the poll resolves with (it depends on the
  probes alone, not on the configuration or on the state the poll starts in). For \<open>StVote\<close> the click is
  evaluated in the page: when that evaluation resolves, the worker counts a success;
  when it rejects with \<open>err\<close>, the worker counts a failure and hands the wrapped error to
  the error policy. For \<open>StAlready\<close> and for \<open>StTimeout\<close> alike the worker resolves,
  counts a failure and nothing else, and does not call the error policy.
\<close>

theorem poll_result_outcome:
  "fetch_res sc = FetchResolves True \<and> reaches_poll sc \<and>
   fst (waitForVoteStatus cfg' (probes sc) 60000 s0) = Inr st \<longrightarrow>
     (st = StVote \<and> vote_click_res sc = Inr bs \<longrightarrow>
        fst (handleSingle cfg sc token proxy s) = Inr () \<and>
        stats_success (snd (handleSingle cfg sc token proxy s)) = stats_success s + 1 \<and>
        stats_failed (snd (handleSingle cfg sc token proxy s)) = stats_failed s \<and>
        stats_invalid (snd (handleSingle cfg sc token proxy s)) = stats_invalid s \<and>
        handled (snd (handleSingle cfg sc token proxy s)) = handled s) \<and>
     (st = StVote \<and> vote_click_res sc = Inl err \<longrightarrow>
        stats_success (snd (handleSingle cfg sc token proxy s)) = stats_success s \<and>
        stats_failed (snd (handleSingle cfg sc token proxy s)) = stats_failed s + 1 \<and>
        stats_invalid (snd (handleSingle cfg sc token proxy s)) = stats_invalid s \<and>
        fst (handleSingle cfg sc token proxy s)
          = fst (handleError cfg (Error (''Token '' @ shortT token @ '' error: '' @ message err)) s) \<and>
        handled (snd (handleSingle cfg sc token proxy s))
          = handled (snd (handleError cfg
              (Error (''Token '' @ shortT token @ '' error: '' @ message err)) s))) \<and>
     (st = StAlready \<or> st = StTimeout \<longrightarrow>
        fst (handleSingle cfg sc token proxy s) = Inr () \<and>
        stats_success (snd (handleSingle cfg sc token proxy s)) = stats_success s \<and>
        stats_failed (snd (handleSingle cfg sc token proxy s)) = stats_failed s + 1 \<and>
        stats_invalid (snd (handleSingle cfg sc token proxy s)) = stats_invalid s \<and>
        handled (snd (handleSingle cfg sc token proxy s)) = handled s)"
proof (intro impI, elim conjE)
  assume v: "fetch_res sc = FetchResolves True" and r: "reaches_poll sc"
    and p: "fst (waitForVoteStatus cfg' (probes sc) 60000 s0) = Inr st"
  note o = valid_session_outcome(1) [OF v r p, where bs = bs and cfg = cfg and token = token
      and proxy = proxy and s = s]
    valid_session_outcome(2) [OF v r p, where err = err and cfg = cfg and token = token
      and proxy = proxy and s = s]
    valid_session_outcome(3) [OF v r p, where cfg = cfg and token = token
      and proxy = proxy and s = s]
  have n: "st = StAlready \<or> st = StTimeout \<longrightarrow> st \<noteq> StVote" by auto
  show "(st = StVote \<and> vote_click_res sc = Inr bs \<longrightarrow>
        fst (handleSingle cfg sc token proxy s) = Inr () \<and>
        stats_success (snd (handleSingle cfg sc token proxy s)) = stats_success s + 1 \<and>
        stats_failed (snd (handleSingle cfg sc token proxy s)) = stats_failed s \<and>
        stats_invalid (snd (handleSingle cfg sc token proxy s)) = stats_invalid s \<and>
        handled (snd (handleSingle cfg sc token proxy s)) = handled s) \<and>
     (st = StVote \<and> vote_click_res sc = Inl err \<longrightarrow>
        stats_success (snd (handleSingle cfg sc token proxy s)) = stats_success s \<and>
        stats_failed (snd (handleSingle cfg sc token proxy s)) = stats_failed s + 1 \<and>
        stats_invalid (snd (handleSingle cfg sc token proxy s)) = stats_invalid s \<and>
        fst (handleSingle cfg sc token proxy s)
          = fst (handleError cfg (Error (''Token '' @ shortT token @ '' error: '' @ message err)) s) \<and>
        handled (snd (handleSingle cfg sc token proxy s))
          = handled (snd (handleError cfg
              (Error (''Token '' @ shortT token @ '' error: '' @ message err)) s))) \<and>
     (st = StAlready \<or> st = StTimeout \<longrightarrow>
        fst (handleSingle cfg sc token proxy s) = Inr () \<and>
        stats_success (snd (handleSingle cfg sc token proxy s)) = stats_success s \<and>
        stats_failed (snd (handleSingle cfg sc token proxy s)) = stats_failed s + 1 \<and>
        stats_invalid (snd (handleSingle cfg sc token proxy s)) = stats_invalid s \<and>
        handled (snd (handleSingle cfg sc token proxy s)) = handled s)"
    using o n by blast
qed

lemma sc_already_facts:
  "fetch_res sc_already = FetchResolves True" "reaches_poll sc_already"
  "fst (waitForVoteStatus cfg (probes sc_already) 60000 s) = Inr StAlready"
  using already_status [of cfg s] by (simp_all add: sc_already_def sc_vote_def reaches_poll_def)

lemma sc_never_facts:
  "fetch_res sc_never = FetchResolves True" "reaches_poll sc_never"
  "fst (waitForVoteStatus cfg (probes sc_never) 60000 s) = Inr StTimeout"
  using never_status [of cfg s] by (simp_all add: sc_never_def sc_vote_def reaches_poll_def)

lemma sc_click_fails_facts:
  "fetch_res sc_click_fails = FetchResolves True" "reaches_poll sc_click_fails"
  "fst (waitForVoteStatus cfg (probes sc_click_fails) 60000 s) = Inr StVote"
  "vote_click_res sc_click_fails = Inl (Error ''Execution context was destroyed'')"
  using five_waits_status [of cfg s]
  by (simp_all add: sc_click_fails_def sc_vote_def reaches_poll_def)

lemma sc_button_disabled_facts:
  "fetch_res sc_button_disabled = FetchResolves True" "reaches_poll sc_button_disabled"
  "fst (waitForVoteStatus cfg (probes sc_button_disabled) 60000 s) = Inr StVote"
  "vote_click_res sc_button_disabled = Inr [(''Share'', False), (''Vote'', True)]"
  "login_click_res sc_button_disabled = Inr [(''Login'', False)]"
  using five_waits_status [of cfg s]
  by (simp_all add: sc_button_disabled_def sc_vote_def reaches_poll_def)

theorem poll_result_outcome_witness:
  "stats_success (snd (handleSingle cfg_quiet sc_vote ''TOKEN1'' None s_fresh)) = 1 \<and>
   stats_failed (snd (handleSingle cfg_quiet sc_vote ''TOKEN1'' None s_fresh)) = 0 \<and>
   fst (handleSingle cfg_quiet sc_already ''TOKEN1'' None s_fresh) = Inr () \<and>
   stats_failed (snd (handleSingle cfg_quiet sc_already ''TOKEN1'' None s_fresh)) = 1 \<and>
   stats_failed (snd (handleSingle cfg_quiet sc_never ''TOKEN1'' None s_fresh)) = 1 \<and>
   stats_failed (snd (handleSingle cfg_absorb sc_click_fails ''TOKEN1'' None s_fresh)) = 1"
  using poll_result_outcome [where sc = sc_vote and cfg' = cfg_quiet and s0 = s_fresh and st = StVote
      and bs = "[(''Share'', False), (''Vote'', False)]" and cfg = cfg_quiet
      and token = "''TOKEN1''" and proxy = None and s = s_fresh]
    poll_result_outcome [where sc = sc_already and cfg' = cfg_quiet and s0 = s_fresh
      and st = StAlready and cfg = cfg_quiet and token = "''TOKEN1''" and proxy = None
      and s = s_fresh]
    poll_result_outcome [where sc = sc_never and cfg' = cfg_quiet and s0 = s_fresh
      and st = StTimeout and cfg = cfg_quiet and token = "''TOKEN1''" and proxy = None
      and s = s_fresh]
    poll_result_outcome [where sc = sc_click_fails and cfg' = cfg_quiet and s0 = s_fresh
      and st = StVote and cfg = cfg_absorb and token = "''TOKEN1''" and proxy = None
      and s = s_fresh and err = "Error ''Execution context was destroyed''"]
    sc_vote_facts reaches_poll_sc_vote five_waits_status [of cfg_quiet s_fresh]
    sc_already_facts(1,2) sc_already_facts(3) [of cfg_quiet s_fresh]
    sc_never_facts(1,2) sc_never_facts(3) [of cfg_quiet s_fresh]
    sc_click_fails_facts(1,2,4) sc_click_fails_facts(3) [of cfg_quiet s_fresh]
  by (simp add: s_fresh_def)

text \<open>
  The poll resolves with \<open>StVote\<close>, the evaluation of the click rejects: the account is
  counted as failed, not as a success.
\<close>

theorem can_act_counted_failed:
  "fst (waitForVoteStatus cfg_absorb (probes sc_click_fails) 60000 s_fresh) = Inr StVote \<and>
   stats_success (snd (handleSingle cfg_absorb sc_click_fails ''TOKEN1'' None s_fresh)) = 0 \<and>
   stats_failed (snd (handleSingle cfg_absorb sc_click_fails ''TOKEN1'' None s_fresh)) = 1"
  using valid_session_outcome(2) [OF sc_click_fails_facts(1,2)
      sc_click_fails_facts(3) [of cfg_absorb s_fresh],
      where err = "Error ''Execution context was destroyed''"
      and cfg = cfg_absorb and token = "''TOKEN1''" and proxy = None and s = s_fresh]
    sc_click_fails_facts(4) sc_click_fails_facts(3) [of cfg_absorb s_fresh]
  by (simp add: s_fresh_def)

section \<open>The click on the vote button\<close>

text \<open>
  C10, as the code has it. When the poll resolves with \<open>StVote\<close> and the evaluation of
  the click in the page resolves, the routine returns true and the worker counts a
  success, whatever buttons \<open>bs\<close> the page has: the first button whose text includes
  \<^verbatim>\<open>Vote\<close> and that is not disabled is clicked, and when there is none the session makes
  no click on the vote page, throws nothing, and the success is counted all the same.
\<close>

theorem best_effort_click:
  "fetch_res sc = FetchResolves True \<and> reaches_poll sc \<and>
   fst (waitForVoteStatus cfg' (probes sc) 60000 s0) = Inr StVote \<and> vote_click_res sc = Inr bs \<longrightarrow>
     fst (voteForBot cfg sc token proxy s) = Inr True \<and>
     fst (handleSingle cfg sc token proxy s) = Inr () \<and>
     stats_success (snd (handleSingle cfg sc token proxy s)) = stats_success s + 1 \<and>
     stats_failed (snd (handleSingle cfg sc token proxy s)) = stats_failed s \<and>
     stats_invalid (snd (handleSingle cfg sc token proxy s)) = stats_invalid s \<and>
     calls (snd (handleSingle cfg sc token proxy s))
       = calls s @ [Dispatch token proxy, Fetch token, Connect (opts_proxy proxy)] @
           clicked is_login_button (login_click_res sc) @
           (case find is_vote_button bs of None \<Rightarrow> [] | Some b \<Rightarrow> [Click (fst b)]) @ [Close] \<and>
     (is_vote_button b \<longleftrightarrow> js_includes (fst b) ''Vote'' \<and> \<not> snd b)"
proof (intro impI, elim conjE)
  assume v: "fetch_res sc = FetchResolves True" and r: "reaches_poll sc"
    and p: "fst (waitForVoteStatus cfg' (probes sc) 60000 s0) = Inr StVote"
    and b: "vote_click_res sc = Inr bs"
  have 1: "fst (voteForBot cfg sc token proxy s) = Inr True"
    using voteForBot_result(1) [OF r p, where cfg = cfg and token = token and proxy = proxy and s = s] b
    by simp
  have 2: "fst (voteForBot cfg sc token proxy (vote_entry cfg token proxy s)) = Inr True"
    using voteForBot_result(1) [OF r p, where cfg = cfg and token = token and proxy = proxy
        and s = "vote_entry cfg token proxy s"] b
    by simp
  have 3: "calls (snd (voteForBot cfg sc token proxy (vote_entry cfg token proxy s)))
      = calls s @ [Dispatch token proxy, Fetch token, Connect (opts_proxy proxy)] @
           clicked is_login_button (login_click_res sc) @
           (case find is_vote_button bs of None \<Rightarrow> [] | Some b \<Rightarrow> [Click (fst b)]) @ [Close]"
    using voteForBot_result(2) [OF r p, where cfg = cfg and token = token and proxy = proxy
        and s = "vote_entry cfg token proxy s"] b
    by (simp add: vote_entry_state clicked_def)
  show "fst (voteForBot cfg sc token proxy s) = Inr True \<and>
     fst (handleSingle cfg sc token proxy s) = Inr () \<and>
     stats_success (snd (handleSingle cfg sc token proxy s)) = stats_success s + 1 \<and>
     stats_failed (snd (handleSingle cfg sc token proxy s)) = stats_failed s \<and>
     stats_invalid (snd (handleSingle cfg sc token proxy s)) = stats_invalid s \<and>
     calls (snd (handleSingle cfg sc token proxy s))
       = calls s @ [Dispatch token proxy, Fetch token, Connect (opts_proxy proxy)] @
           clicked is_login_button (login_click_res sc) @
           (case find is_vote_button bs of None \<Rightarrow> [] | Some b \<Rightarrow> [Click (fst b)]) @ [Close] \<and>
     (is_vote_button b \<longleftrightarrow> js_includes (fst b) ''Vote'' \<and> \<not> snd b)"
    using 1 3 handleSingle_voted(1,3,4,5,8) [OF v 2]
    by (simp add: is_vote_button_def)
qed

theorem best_effort_click_witness:
  "find is_vote_button [(''Share'', False), (''Vote'', True)] = None \<and>
   fst (voteForBot cfg_quiet sc_button_disabled ''TOKEN1'' None s_fresh) = Inr True \<and>
   stats_success (snd (handleSingle cfg_quiet sc_button_disabled ''TOKEN1'' None s_fresh)) = 1 \<and>
   calls (snd (handleSingle cfg_quiet sc_button_disabled ''TOKEN1'' None s_fresh))
     = [Dispatch ''TOKEN1'' None, Fetch ''TOKEN1'', Connect None, Click ''Login'', Close] \<and>
   calls (snd (handleSingle cfg_quiet sc_vote ''TOKEN1'' None s_fresh))
     = [Dispatch ''TOKEN1'' None, Fetch ''TOKEN1'', Connect None, Click ''Login'', Click ''Vote'',
        Close]"
proof -
  have f: "find is_vote_button [(''Share'', False), (''Vote'', True)] = None"
    "find is_vote_button [(''Share'', False), (''Vote'', False)] = Some (''Vote'', False)"
    "clicked is_login_button (Inr [(''Login'', False)]) = [Click ''Login'']"
    by (simp_all add: is_vote_button_def is_login_button_def clicked_def)
  show ?thesis
    using best_effort_click [where sc = sc_button_disabled and cfg' = cfg_quiet and s0 = s_fresh
        and bs = "[(''Share'', False), (''Vote'', True)]" and cfg = cfg_quiet
        and token = "''TOKEN1''" and proxy = None and s = s_fresh]
      best_effort_click [where sc = sc_vote and cfg' = cfg_quiet and s0 = s_fresh
        and bs = "[(''Share'', False), (''Vote'', False)]" and cfg = cfg_quiet
        and token = "''TOKEN1''" and proxy = None and s = s_fresh]
      sc_button_disabled_facts(1,2,4,5) sc_button_disabled_facts(3) [of cfg_quiet s_fresh]
      sc_vote_facts reaches_poll_sc_vote five_waits_status [of cfg_quiet s_fresh] f
    by (simp add: s_fresh_def opts_proxy_def)
qed

text \<open>
  The poll resolves with \<open>StVote\<close> and the evaluation of the click rejects: the routine
  rejects with that error and no success is counted.
\<close>

theorem click_evaluation_raises:
  "fst (waitForVoteStatus cfg_quiet (probes sc_click_fails) 60000 s_fresh) = Inr StVote \<and>
   fst (voteForBot cfg_quiet sc_click_fails ''TOKEN1'' None s_fresh)
     = Inl (Error ''Execution context was destroyed'') \<and>
   stats_success s_fresh = 0 \<and>
   stats_success (snd (handleSingle cfg_quiet sc_click_fails ''TOKEN1'' None s_fresh)) = 0"
  using voteForBot_result(1) [OF sc_click_fails_facts(2) sc_click_fails_facts(3) [of cfg_quiet s_fresh],
      where cfg = cfg_quiet and token = "''TOKEN1''" and proxy = None and s = s_fresh]
    valid_session_outcome(2) [OF sc_click_fails_facts(1,2)
      sc_click_fails_facts(3) [of cfg_quiet s_fresh],
      where err = "Error ''Execution context was destroyed''"
      and cfg = cfg_quiet and token = "''TOKEN1''" and proxy = None and s = s_fresh]
    sc_click_fails_facts(4) sc_click_fails_facts(3) [of cfg_quiet s_fresh]
  by (simp add: s_fresh_def)

section \<open>Errors and the loop\<close>

lemma parallelCycle_eq: "parallelCycle cfg env s = (Inr (), snd (parallelCycle cfg env s))"
  using parallelCycle_resolves [of cfg env s] by (cases "parallelCycle cfg env s") simp

text \<open>In parallel mode the loop is never left by an error, whatever the workers do.\<close>

lemma autovoteBot_parallel_runs_on:
  "runInParallel cfg \<Longrightarrow> fst (autovoteBot fuel cfg world c s) = None"
proof (induction fuel arbitrary: c s)
  case 0
  show ?case by simp
next
  case (Suc fuel)
  have "catchE (parallelCycle cfg (world c))
          (\<lambda>err s1. handleError cfg err (log cfg (LogFatalCycle (message err)) s1))
          (log cfg (LogStartCycle (stats_total s)) s)
      = (Inr (), snd (parallelCycle cfg (world c) (log cfg (LogStartCycle (stats_total s)) s)))"
    by (subst catchE_def, subst parallelCycle_eq) simp
  with Suc show ?case by simp
qed

text \<open>
  In serial mode with no handler, an invalid token of the first account leaves the
  cycle and the loop with the error.
\<close>

lemma sequentialStep_invalid_absent:
  assumes "errorLog cfg = None" and "fetch_res (env i) \<noteq> FetchResolves True"
  shows "fst (sequentialStep cfg env i s) = Inl (Error (''Invalid token '' @ shortT (tokenList cfg ! i)))"
proof -
  obtain s2 where "handleSingle cfg (env i) (tokenList cfg ! i) (proxy_at cfg i)
        (log cfg (LogProcessing (i + 1) (length (tokenList cfg))) s)
      = handleError cfg (Error (''Invalid token '' @ shortT (tokenList cfg ! i))) s2"
    using handleSingle_invalid [OF assms(2)] by blast
  then show ?thesis
    by (simp add: sequentialStep_def catchE_def handleError_absent [OF assms(1)])
qed

lemma autovoteBot_sequential_invalid:
  assumes "errorLog cfg = None" and "\<not> runInParallel cfg" and "tokenList cfg \<noteq> []"
    and "fetch_res (world c 0) \<noteq> FetchResolves True"
  shows "fst (autovoteBot (Suc fuel) cfg world c s)
           = Some (Error (''Invalid token '' @ shortT (tokenList cfg ! 0)))"
proof -
  define s0 where "s0 = log cfg (LogStartCycle (stats_total s)) s"
  obtain s1 where 1: "sequentialStep cfg (world c) 0 s0
      = (Inl (Error (''Invalid token '' @ shortT (tokenList cfg ! 0))), s1)"
    using sequentialStep_invalid_absent [where env = "world c" and i = 0 and s = s0, OF assms(1,4)]
    by (cases "sequentialStep cfg (world c) 0 s0") simp
  have "sequentialCycle cfg (world c) s0
      = (Inl (Error (''Invalid token '' @ shortT (tokenList cfg ! 0))), s1)"
    using assms(3) 1 by (simp add: sequentialCycle_def sequentialLoop_step)
  then show ?thesis
    using assms(1,2)
    by (simp add: catchE_def handleError_absent s0_def)
qed

text \<open>
  C1 at a failing input: no handler, two tokens that both fail the credential check.
  A worker rejects with the invalid-token error. In parallel mode the cycle resolves
  all the same and the loop is still running after three cycles; in serial mode the
  loop is left in the first cycle with that error.
\<close>

theorem parallel_errors_do_not_propagate:
  "errorLog cfg_parallel = None \<and> runInParallel cfg_parallel \<and>
   fst (handleSingle cfg_parallel sc_invalid ''TOKEN1'' None s_fresh)
     = Inl (Error ''Invalid token TOKEN...'') \<and>
   fst (parallelCycle cfg_parallel (\<lambda>i. sc_invalid) s_fresh) = Inr () \<and>
   fst (autovoteBot 3 cfg_parallel (\<lambda>c i. sc_invalid) 0 s_fresh) = None \<and>
   fst (autovoteBot 3 cfg_quiet (\<lambda>c i. sc_invalid) 0 s_fresh)
     = Some (Error ''Invalid token TOKEN...'')"
proof -
  have c: "errorLog cfg_parallel = None" "runInParallel cfg_parallel"
    "errorLog cfg_quiet = None" "\<not> runInParallel cfg_quiet" "tokenList cfg_quiet \<noteq> []"
    "tokenList cfg_quiet ! 0 = ''TOKEN1''"
    by (simp_all add: cfg_parallel_def cfg_quiet_def)
  have f: "fetch_res sc_invalid \<noteq> FetchResolves True"
    by (simp add: sc_invalid_def)
  obtain s2 where "handleSingle cfg_parallel sc_invalid ''TOKEN1'' None s_fresh
      = handleError cfg_parallel (Error (''Invalid token '' @ shortT ''TOKEN1'')) s2"
    using handleSingle_invalid [OF f] by blast
  then have w: "fst (handleSingle cfg_parallel sc_invalid ''TOKEN1'' None s_fresh)
     = Inl (Error ''Invalid token TOKEN...'')"
    by (simp add: handleError_absent [OF c(1)] shortT_def)
  have q: "fst (autovoteBot (Suc 2) cfg_quiet (\<lambda>c i. sc_invalid) 0 s_fresh)
     = Some (Error ''Invalid token TOKEN...'')"
    using autovoteBot_sequential_invalid [OF c(3,4,5), where world = "\<lambda>c i. sc_invalid" and c = 0
        and fuel = 2 and s = s_fresh] f
    by (simp add: c(6) shortT_def)
  have "Suc 2 = 3" by simp
  with q have q3: "fst (autovoteBot 3 cfg_quiet (\<lambda>c i. sc_invalid) 0 s_fresh)
     = Some (Error ''Invalid token TOKEN...'')"
    by (simp only:)
  show ?thesis
    using c(1,2) w parallelCycle_resolves [of cfg_parallel "\<lambda>i. sc_invalid" s_fresh]
      autovoteBot_parallel_runs_on [OF c(2), of 3 "\<lambda>c i. sc_invalid" 0 s_fresh] q3
    by simp
qed

end
